theory Spec2Isabelle
  imports Complex_Main "HOL-Library.Sublist" "HOL-Library.Log_Nat" "HOL-Library.Multiset"
begin

section \<open>Python values used by the hotel recommendation service\<close>

subsection \<open>Floats\<close>

text \<open>
  A Python \<open>float\<close> is an IEEE 754 binary64 number. It is modelled by its value: a finite
  double is the rational number it denotes (\<open>-0.0\<close> and \<open>0.0\<close> are the one value
  \<open>Fin 0\<close>), and the three special values are constructors of their own. Every finite
  double is some \<open>Fin x\<close>; the doubles among the rationals are singled out by
  \<open>is_double\<close> below.
\<close>

datatype pyfloat = Fin rat | PInf | NInf | NaN

text \<open>Python's \<open>a <= b\<close>, \<open>a < b\<close> and \<open>a > b\<close> on floats: every comparison with NaN is false.\<close>

fun fle :: "pyfloat \<Rightarrow> pyfloat \<Rightarrow> bool" where
  "fle NaN b = False"
| "fle a NaN = False"
| "fle NInf b = True"
| "fle a PInf = True"
| "fle (Fin x) (Fin y) = (x \<le> y)"
| "fle a b = False"

fun flt :: "pyfloat \<Rightarrow> pyfloat \<Rightarrow> bool" where
  "flt NaN b = False"
| "flt a NaN = False"
| "flt (Fin x) (Fin y) = (x < y)"
| "flt NInf NInf = False"
| "flt PInf b = False"
| "flt NInf b = True"
| "flt (Fin x) PInf = True"
| "flt (Fin x) NInf = False"

definition fgt :: "pyfloat \<Rightarrow> pyfloat \<Rightarrow> bool" where
  "fgt a b = flt b a"

subsection \<open>Float arithmetic\<close>

text \<open>
  Every arithmetic operation on doubles computes the exact result and rounds it to the
  nearest double, ties to the even significand. \<open>rne\<close> rounds a rational to the nearest
  integer, ties to even; \<open>ilog2 x\<close> is the binary exponent of a positive \<open>x\<close>
  (\<open>2 ^ e \<le> x < 2 ^ (e + 1)\<close>); below \<open>2 ^ - 1022\<close> the doubles are subnormal
  and share the exponent \<open>- 1022\<close>; the spacing of the doubles around \<open>x\<close> is
  \<open>quantum x\<close> (53 significant bits); a result of magnitude \<open>2 ^ 1024\<close> or more
  overflows to an infinity.
\<close>

definition rne :: "rat \<Rightarrow> int" where
  "rne x = (let f = \<lfloor>x\<rfloor>; d = x - of_int f
            in if d < 1/2 then f else if 1/2 < d then f + 1 else if even f then f else f + 1)"

definition ilog2 :: "rat \<Rightarrow> int" where
  "ilog2 x = (let (a, b) = quotient_of x; k = bitlen a - bitlen b
              in if 2 powi k \<le> x then k else k - 1)"

definition expo :: "rat \<Rightarrow> int" where
  "expo x = max (ilog2 \<bar>x\<bar>) (- 1022)"

definition quantum :: "rat \<Rightarrow> rat" where
  "quantum x = 2 powi (expo x - 52)"

definition rounded :: "rat \<Rightarrow> rat" where
  "rounded x = (if x = 0 then 0 else of_int (rne (x / quantum x)) * quantum x)"

definition fl :: "rat \<Rightarrow> pyfloat" where
  "fl x = (let y = rounded x
           in if 2 powi 1024 \<le> y then PInf else if y \<le> - (2 powi 1024) then NInf else Fin y)"

text \<open>
  The finite doubles are the rationals that rounding leaves alone. A float value is
  valid when it is a special value or a finite double.
\<close>

definition is_double :: "rat \<Rightarrow> bool" where
  "is_double x = (rounded x = x \<and> \<bar>x\<bar> < 2 powi 1024)"

fun valid_float :: "pyfloat \<Rightarrow> bool" where
  "valid_float (Fin x) = is_double x"
| "valid_float a = True"

fun is_inf :: "pyfloat \<Rightarrow> bool" where
  "is_inf PInf = True"
| "is_inf NInf = True"
| "is_inf a = False"

text \<open>\<open>a + b\<close> and \<open>a * b\<close> on floats (IEEE 754; neither raises in Python).\<close>

fun fadd :: "pyfloat \<Rightarrow> pyfloat \<Rightarrow> pyfloat" where
  "fadd NaN b = NaN"
| "fadd a NaN = NaN"
| "fadd (Fin x) (Fin y) = fl (x + y)"
| "fadd PInf NInf = NaN"
| "fadd NInf PInf = NaN"
| "fadd PInf b = PInf"
| "fadd a PInf = PInf"
| "fadd NInf b = NInf"
| "fadd a NInf = NInf"

fun fmul :: "pyfloat \<Rightarrow> pyfloat \<Rightarrow> pyfloat" where
  "fmul NaN b = NaN"
| "fmul a NaN = NaN"
| "fmul (Fin x) (Fin y) = fl (x * y)"
| "fmul (Fin x) PInf = (if x = 0 then NaN else if 0 < x then PInf else NInf)"
| "fmul (Fin x) NInf = (if x = 0 then NaN else if 0 < x then NInf else PInf)"
| "fmul PInf (Fin y) = (if y = 0 then NaN else if 0 < y then PInf else NInf)"
| "fmul NInf (Fin y) = (if y = 0 then NaN else if 0 < y then NInf else PInf)"
| "fmul PInf PInf = PInf"
| "fmul PInf NInf = NInf"
| "fmul NInf PInf = NInf"
| "fmul NInf NInf = PInf"

text \<open>
  \<open>a / b\<close> on floats: Python raises ZeroDivisionError when the divisor is zero, whatever
  the dividend (\<open>None\<close> here); otherwise the quotient is the IEEE 754 one.
\<close>

fun fdiv :: "pyfloat \<Rightarrow> pyfloat \<Rightarrow> pyfloat option" where
  "fdiv a (Fin y) =
     (if y = 0 then None
      else Some (case a of
                   Fin x \<Rightarrow> fl (x / y)
                 | PInf \<Rightarrow> (if 0 < y then PInf else NInf)
                 | NInf \<Rightarrow> (if 0 < y then NInf else PInf)
                 | NaN \<Rightarrow> NaN))"
| "fdiv NaN b = Some NaN"
| "fdiv a NaN = Some NaN"
| "fdiv (Fin x) b = Some (Fin 0)"
| "fdiv a b = Some NaN"

text \<open>
  \<open>min(a, b)\<close> keeps its first argument unless the second is smaller; \<open>float(n)\<close> of a
  list length; \<open>round(x, 1)\<close> rounds the exact value of \<open>x\<close> to one decimal place, ties
  to even, and returns the nearest double (infinities and NaN round to themselves).
\<close>

definition fmin :: "pyfloat \<Rightarrow> pyfloat \<Rightarrow> pyfloat" where
  "fmin a b = (if flt b a then b else a)"

definition float_of_nat :: "nat \<Rightarrow> pyfloat" where
  "float_of_nat n = fl (of_nat n)"

fun py_round1 :: "pyfloat \<Rightarrow> pyfloat" where
  "py_round1 (Fin x) = fl (of_int (rne (x * 10)) / 10)"
| "py_round1 a = a"

subsection \<open>Strings\<close>

text \<open>
  A \<open>str\<close> is a HOL string. \<open>str.lower()\<close> is modelled on ASCII text, where it maps
  \<open>A\<close>..\<open>Z\<close> to \<open>a\<close>..\<open>z\<close> and leaves every other character alone.
\<close>

definition lower_char :: "char \<Rightarrow> char" where
  "lower_char c =
     (let n = (of_char c :: nat) in if 65 \<le> n \<and> n \<le> 90 then char_of (n + 32) else c)"

definition lower :: "string \<Rightarrow> string" where
  "lower s = map lower_char s"

text \<open>
  \<open>sub in s\<close> on strings: some position of \<open>s\<close> starts a copy of \<open>sub\<close>
  (the empty string is found in every string).
\<close>

fun starts_with :: "string \<Rightarrow> string \<Rightarrow> bool" where
  "starts_with s [] = True"
| "starts_with [] (p # ps) = False"
| "starts_with (c # cs) (p # ps) = (c = p \<and> starts_with cs ps)"

fun str_in :: "string \<Rightarrow> string \<Rightarrow> bool" where
  "str_in sub [] = (sub = [])"
| "str_in sub (c # cs) = (starts_with (c # cs) sub \<or> str_in sub cs)"

text \<open>Truth value of an \<open>Optional[str]\<close>: \<open>None\<close> and the empty string are false.\<close>

fun truthy :: "string option \<Rightarrow> bool" where
  "truthy None = False"
| "truthy (Some s) = (s \<noteq> [])"

text \<open>
  \<open>str.strip()\<close> removes the white space at both ends; on ASCII text the white-space
  characters are the codes 9 to 13 and 28 to 32. \<open>str.replace("\n", " ")\<close> turns every
  line feed into a space.
\<close>

definition is_space :: "char \<Rightarrow> bool" where
  "is_space c = (let n = (of_char c :: nat) in (9 \<le> n \<and> n \<le> 13) \<or> (28 \<le> n \<and> n \<le> 32))"

definition strip :: "string \<Rightarrow> string" where
  "strip s = rev (dropWhile is_space (rev (dropWhile is_space s)))"

definition replace_newlines :: "string \<Rightarrow> string" where
  "replace_newlines s = map (\<lambda>c. if c = CHR 0x0A then CHR '' '' else c) s"

text \<open>\<open>sep.join(xs)\<close>, and \<open>str(n)\<close> for a non-negative integer.\<close>

fun join :: "string \<Rightarrow> string list \<Rightarrow> string" where
  "join sep [] = []"
| "join sep [x] = x"
| "join sep (x # y # ys) = x @ sep @ join sep (y # ys)"

fun str_nat :: "nat \<Rightarrow> string" where
  "str_nat n =
     (if n < 10 then [char_of (48 + n)] else str_nat (n div 10) @ [char_of (48 + n mod 10)])"

text \<open>An \<open>Optional[str]\<close> inside an f-string: \<open>None\<close> prints as the word None.\<close>

fun str_opt :: "string option \<Rightarrow> string" where
  "str_opt None = ''None''"
| "str_opt (Some s) = s"

section \<open>The data model (models.py)\<close>

record Hotel =
  hotel_id :: int
  name :: string
  location :: string
  price :: pyfloat
  rating :: pyfloat
  amenities :: "string list"
  description :: string

record UserPreference =
  pref_location :: "string option"
  min_price :: pyfloat
  max_price :: pyfloat
  required_amenities :: "string list"
  trip_description :: "string option"

section \<open>The filter engine (logic.py, filter\_hotels)\<close>

text \<open>
  The inner loop over the required amenities: it sets \<open>missing_amenity\<close> and breaks at the
  first required amenity whose lower-case form is not in the hotel's lower-cased list.
\<close>

fun missing_amenity :: "string list \<Rightarrow> string list \<Rightarrow> bool" where
  "missing_amenity [] hotel_amenities_lower = False"
| "missing_amenity (required_amenity # rest) hotel_amenities_lower =
     (if lower required_amenity \<notin> set hotel_amenities_lower then True
      else missing_amenity rest hotel_amenities_lower)"

text \<open>
  The outer loop, with the list \<open>filtered_hotels\<close> as an accumulator; each \<open>continue\<close>
  is a recursive call that leaves the accumulator alone.
\<close>

fun filter_loop ::
  "Hotel list \<Rightarrow> string option \<Rightarrow> pyfloat \<Rightarrow> pyfloat \<Rightarrow> string list \<Rightarrow> Hotel list \<Rightarrow> Hotel list"
where
  "filter_loop [] loc mn mx am filtered_hotels = filtered_hotels"
| "filter_loop (hotel # hotels) loc mn mx am filtered_hotels =
     (if truthy loc \<and> \<not> str_in (lower (the loc)) (lower (location hotel))
      then filter_loop hotels loc mn mx am filtered_hotels
      else if \<not> (fle mn (price hotel) \<and> fle (price hotel) mx)
      then filter_loop hotels loc mn mx am filtered_hotels
      else if am \<noteq> [] \<and> missing_amenity am (map lower (amenities hotel))
      then filter_loop hotels loc mn mx am filtered_hotels
      else filter_loop hotels loc mn mx am (filtered_hotels @ [hotel]))"

definition filter_hotels ::
  "Hotel list \<Rightarrow> string option \<Rightarrow> pyfloat \<Rightarrow> pyfloat \<Rightarrow> string list \<Rightarrow> Hotel list"
where
  "filter_hotels hotels loc mn mx am = filter_loop hotels loc mn mx am []"

text \<open>
  The filter contract in the specification's words: the location, when provided, is a
  case-insensitive substring of the hotel's location; the price lies within the bounds,
  inclusive; every required amenity is case-insensitively among the hotel's amenities.
\<close>

definition satisfies_criteria ::
  "string option \<Rightarrow> pyfloat \<Rightarrow> pyfloat \<Rightarrow> string list \<Rightarrow> Hotel \<Rightarrow> bool"
where
  "satisfies_criteria loc mn mx am h =
     ((case loc of None \<Rightarrow> True | Some l \<Rightarrow> sublist (lower l) (lower (location h)))
      \<and> fle mn (price h) \<and> fle (price h) mx
      \<and> (\<forall>a \<in> set am. lower a \<in> lower ` set (amenities h)))"

text \<open>The price test with the default bounds of \<open>filter_hotels\<close>, 0 and 10000.\<close>

definition default_price_ok :: "Hotel \<Rightarrow> bool" where
  "default_price_ok h = (fle (Fin 0) (price h) \<and> fle (price h) (Fin 10000))"

text \<open>Three sample hotels, priced 80, 150 and 500, and one priced 20000.\<close>

definition hotel_a :: Hotel where
  "hotel_a = \<lparr>hotel_id = 1, name = ''Grand Plaza'', location = ''Miami Beach'', price = Fin 80,
     rating = Fin 5, amenities = [''WiFi'', ''Pool'', ''Gym'', ''Spa'', ''Bar''],
     description = ''Seaside''\<rparr>"

definition hotel_b :: Hotel where
  "hotel_b = \<lparr>hotel_id = 2, name = ''Cozy Inn'', location = ''Denver'', price = Fin 150,
     rating = Fin 4, amenities = [''WiFi'', ''Parking''], description = ''Mountain''\<rparr>"

definition hotel_c :: Hotel where
  "hotel_c = \<lparr>hotel_id = 3, name = ''Royal Palace'', location = ''Miami'', price = Fin 500,
     rating = Fin 3, amenities = [''wifi'', ''POOL'', ''Spa''], description = ''Luxury''\<rparr>"

definition hotel_d :: Hotel where
  "hotel_d = \<lparr>hotel_id = 4, name = ''Crystal Sanctuary'', location = ''Dubai'', price = Fin 20000,
     rating = Fin 5, amenities = [''Spa''], description = ''Private island''\<rparr>"

section \<open>The scoring engine (logic.py, calculate\_recommendation\_score)\<close>

text \<open>
  The function follows the source statement by statement; \<open>None\<close> stands for the
  ZeroDivisionError that a division could raise. \<open>price_step\<close> is the first block, the
  price score, applied to the running \<open>score\<close>.
\<close>

definition price_step :: "Hotel \<Rightarrow> UserPreference \<Rightarrow> pyfloat \<Rightarrow> pyfloat option" where
  "price_step hotel user_pref score =
     (if fgt (max_price user_pref) (Fin 0) then
        (case fdiv (price hotel) (max_price user_pref) of
           None \<Rightarrow> None
         | Some price_ratio \<Rightarrow>
             Some (if fle price_ratio (Fin 1) then fadd score (Fin 40) else score))
      else Some score)"

definition calculate_recommendation_score :: "Hotel \<Rightarrow> UserPreference \<Rightarrow> pyfloat option" where
  "calculate_recommendation_score hotel user_pref =
     (let score = Fin 0 in
      case price_step hotel user_pref score of
        None \<Rightarrow> None
      | Some score \<Rightarrow>
         (case fdiv (rating hotel) (Fin 5) of
            None \<Rightarrow> None
          | Some rating_ratio \<Rightarrow>
             (let score = fadd score (fmul rating_ratio (Fin 30));
                  amenity_count = length (amenities hotel);
                  score = fadd score (fmin (fmul (float_of_nat amenity_count) (Fin 6)) (Fin 30))
              in Some (py_round1 score))))"

text \<open>
  Names for the second and the third addend of the code: \<open>(hotel.rating / 5.0) * 30.0\<close>
  and \<open>min(amenity_count * 6.0, 30.0)\<close>.
\<close>

definition rating_component :: "Hotel \<Rightarrow> pyfloat" where
  "rating_component h =
     fmul (case fdiv (rating h) (Fin 5) of Some q \<Rightarrow> q | None \<Rightarrow> NaN) (Fin 30)"

definition amenity_component :: "Hotel \<Rightarrow> pyfloat" where
  "amenity_component h = fmin (fmul (float_of_nat (length (amenities h))) (Fin 6)) (Fin 30)"

text \<open>
  The scoring contract in the specification's words. The price component is the flat 40
  points when the price is at most the maximum price and the maximum price is positive,
  and 0 otherwise. The score is the number
  \<open>40 * [price \<le> max price and max price > 0] + (rating / 5) * 30
   + min(6 * amenity count, 30)\<close>, rounded to one decimal place (a tie goes to the even
  digit); it is a number when the rating is one.
\<close>

definition within_budget :: "Hotel \<Rightarrow> UserPreference \<Rightarrow> bool" where
  "within_budget h p = (fle (price h) (max_price p) \<and> fgt (max_price p) (Fin 0))"

definition price_component :: "Hotel \<Rightarrow> UserPreference \<Rightarrow> pyfloat" where
  "price_component h p = (if within_budget h p then Fin 40 else Fin 0)"

definition round1 :: "rat \<Rightarrow> rat" where
  "round1 x = of_int (rne (x * 10)) / 10"

definition spec_score :: "Hotel \<Rightarrow> UserPreference \<Rightarrow> rat option" where
  "spec_score h p =
     (case rating h of
        Fin r \<Rightarrow>
          Some (round1 ((if within_budget h p then 40 else 0) + (r / 5) * 30
                        + min (6 * of_nat (length (amenities h))) 30))
      | _ \<Rightarrow> None)"

text \<open>A preference without bounds on the price, and one with a budget of 500.\<close>

definition pref_unbounded :: UserPreference where
  "pref_unbounded = \<lparr>pref_location = None, min_price = Fin 0, max_price = PInf,
     required_amenities = [], trip_description = None\<rparr>"

definition pref_500 :: UserPreference where
  "pref_500 = \<lparr>pref_location = None, min_price = Fin 0, max_price = Fin 500,
     required_amenities = [], trip_description = None\<rparr>"

text \<open>A hotel without a price limit on request, and one priced at the budget.\<close>

definition hotel_e :: Hotel where
  "hotel_e = \<lparr>hotel_id = 5, name = ''Hidden Haven'', location = ''Rome'', price = PInf,
     rating = Fin 5, amenities = [''WiFi'', ''Pool'', ''Gym'', ''Spa'', ''Bar''],
     description = ''Price on request''\<rparr>"

definition hotel_f :: Hotel where
  "hotel_f = \<lparr>hotel_id = 6, name = ''Golden Suites'', location = ''Paris'', price = Fin 500,
     rating = Fin 5, amenities = [''WiFi'', ''Pool'', ''Gym'', ''Spa'', ''Bar''],
     description = ''Central''\<rparr>"

section \<open>The remote text generation and the values it returns\<close>

text \<open>
  What \<open>json.loads\<close> returns: \<open>None\<close>, a bool, an int, a float, a str, a list or a dict
  (the dict as the list of its items; \<open>map_of\<close> looks a key up).
\<close>

datatype json =
    JNull
  | JBool bool
  | JInt int
  | JFloat pyfloat
  | JStr string
  | JArr "json list"
  | JObj "(string \<times> json) list"

text \<open>
  The surroundings of logic.py that are not code of the repository:
  \<^item> \<open>api_key\<close> is \<open>API_KEY = os.getenv("GEMINI_API_KEY")\<close>;
  \<^item> \<open>generate_content\<close> is the text of the reply of
    \<open>genai.GenerativeModel('gemini-pro').generate_content(prompt)\<close>, or \<open>None\<close> when the
    call or the access to \<open>response.text\<close> raises;
  \<^item> \<open>json_loads\<close> is \<open>json.loads\<close>, \<open>None\<close> when it raises;
  \<^item> \<open>float_str\<close> is the text of a float inside an f-string.
\<close>

record Env =
  api_key :: "string option"
  generate_content :: "string \<Rightarrow> string option"
  json_loads :: "string \<Rightarrow> json option"
  float_str :: "pyfloat \<Rightarrow> string"

section \<open>The reasoning generator (logic.py, generate\_recommendation\_reason)\<close>

definition fallback_reason :: "Env \<Rightarrow> Hotel \<Rightarrow> string" where
  "fallback_reason env hotel =
     ''This hotel is a great match located in '' @ location hotel @ '' with a rating of ''
     @ float_str env (rating hotel) @ ''. '' @ ''It costs $'' @ float_str env (price hotel)
     @ '' per night.''"

definition reason_prompt :: "Env \<Rightarrow> Hotel \<Rightarrow> UserPreference \<Rightarrow> string" where
  "reason_prompt env hotel user_pref =
     ''Explain why '' @ [CHR 0x27] @ name hotel @ [CHR 0x27]
     @ '' is a good recommendation for a traveler ''
     @ ''looking for a hotel in '' @ str_opt (pref_location user_pref)
     @ '' with a budget of $'' @ float_str env (max_price user_pref) @ ''. ''
     @ ''The hotel costs $'' @ float_str env (price hotel) @ '', has a ''
     @ float_str env (rating hotel) @ '' star rating, and these amenities: ''
     @ join '', '' (amenities hotel) @ ''. ''
     @ ''Keep it persuasive but short (under 50 words).''"

text \<open>
  The \<open>score\<close> argument is not used by the code. An exception inside the \<open>try\<close> is
  printed and control falls through to \<open>return fallback_reason\<close>.
\<close>

definition generate_recommendation_reason ::
  "Env \<Rightarrow> Hotel \<Rightarrow> UserPreference \<Rightarrow> pyfloat \<Rightarrow> string"
where
  "generate_recommendation_reason env hotel user_pref score =
     (if truthy (api_key env) then
        (case generate_content env (reason_prompt env hotel user_pref) of
           None \<Rightarrow> fallback_reason env hotel
         | Some text \<Rightarrow>
             if text \<noteq> [] then strip (replace_newlines text) else fallback_reason env hotel)
      else fallback_reason env hotel)"

section \<open>The reranker (logic.py, rerank\_hotels)\<close>

text \<open>One entry of the result list: the dict with the keys hotel, score and reasoning.\<close>

record Ranked =
  ranked_hotel :: Hotel
  ranked_score :: json
  ranked_reasoning :: json

text \<open>The loop that builds \<open>candidates_text\<close>, with \<open>enumerate\<close>'s counter \<open>i\<close>.\<close>

fun candidates_text :: "Env \<Rightarrow> nat \<Rightarrow> Hotel list \<Rightarrow> string" where
  "candidates_text env i [] = []"
| "candidates_text env i (h # hs) =
     (''Hotel '' @ str_nat i @ '': '' @ name h @ '' ($'' @ float_str env (price h) @ '', ''
      @ float_str env (rating h) @ '' stars). Amenities: '' @ join '', '' (amenities h)
      @ ''. Loc: '' @ location h @ ''.'' @ [CHR 0x0A])
     @ candidates_text env (Suc i) hs"

definition rerank_prompt :: "Env \<Rightarrow> Hotel list \<Rightarrow> UserPreference \<Rightarrow> string" where
  "rerank_prompt env hotels user_pref =
     ''User is looking for: '' @ [CHR 0x27] @ str_opt (trip_description user_pref)
     @ [CHR 0x27] @ ''.'' @ [CHR 0x0A]
     @ ''Here are the candidates:'' @ [CHR 0x0A] @ candidates_text env 0 hotels @ [CHR 0x0A]
     @ ''Task: Rank these hotels from best to worst match for the user'' @ [CHR 0x27]
     @ ''s specific request. ''
     @ ''Return a JSON array where each object has: '' @ [CHR 0x27] @ ''index'' @ [CHR 0x27]
     @ '' (int), '' @ [CHR 0x27] @ ''score'' @ [CHR 0x27] @ '' (0-100), and '' @ [CHR 0x27]
     @ ''reasoning'' @ [CHR 0x27] @ '' (max 20 words). ''
     @ ''The JSON should be the only output.''"

text \<open>
  \<open>text = response.text.strip()\<close>, and \<open>text[7:-3]\<close> when the text starts with the
  fence: the first seven and the last three characters go.
\<close>

definition unfence :: "string \<Rightarrow> string" where
  "unfence reply =
     (let text = strip reply
      in if starts_with text ''```json'' then take (length text - 3 - 7) (drop 7 text) else text)"

text \<open>
  The steps inside the \<open>try\<close> up to \<open>rankings = json.loads(text)\<close>; \<open>None\<close> when one of
  them raises.
\<close>

definition remote_rankings :: "Env \<Rightarrow> Hotel list \<Rightarrow> UserPreference \<Rightarrow> json option" where
  "remote_rankings env hotels user_pref =
     (case generate_content env (rerank_prompt env hotels user_pref) of
        None \<Rightarrow> None
      | Some reply \<Rightarrow> json_loads env (unfence reply))"

text \<open>
  \<open>for rank in rankings\<close>: a list gives its elements, a dict its keys, a str its
  characters; any other value is not iterable (TypeError, \<open>None\<close> here).
\<close>

fun iterate :: "json \<Rightarrow> json list option" where
  "iterate (JArr xs) = Some xs"
| "iterate (JObj kvs) = Some (map (\<lambda>kv. JStr (fst kv)) kvs)"
| "iterate (JStr s) = Some (map (\<lambda>c. JStr [c]) s)"
| "iterate j = None"

text \<open>\<open>rank.get(key, default)\<close>: only a dict has \<open>get\<close> (AttributeError otherwise).\<close>

fun dict_get :: "json \<Rightarrow> string \<Rightarrow> json \<Rightarrow> json option" where
  "dict_get (JObj kvs) key dflt = Some (case map_of kvs key of None \<Rightarrow> dflt | Some v \<Rightarrow> v)"
| "dict_get j key dflt = None"

text \<open>
  \<open>idx is not None and 0 <= idx < len(hotels)\<close>: \<open>None\<close> fails the first test; a bool
  counts as 0 or 1; an int and a float are compared by value; comparing a str, a list or
  a dict with 0 raises TypeError.
\<close>

fun index_in_range :: "json \<Rightarrow> nat \<Rightarrow> bool option" where
  "index_in_range JNull n = Some False"
| "index_in_range (JBool b) n = Some ((if b then 1 else 0) < n)"
| "index_in_range (JInt i) n = Some (0 \<le> i \<and> i < int n)"
| "index_in_range (JFloat f) n = Some (fle (Fin 0) f \<and> flt f (Fin (of_nat n)))"
| "index_in_range j n = None"

text \<open>
  \<open>hotels[idx]\<close> for an index that passed the range test: a list index must be an int
  (or a bool); a float raises TypeError.
\<close>

fun subscript :: "Hotel list \<Rightarrow> json \<Rightarrow> Hotel option" where
  "subscript hotels (JBool b) = Some (hotels ! (if b then 1 else 0))"
| "subscript hotels (JInt i) = Some (hotels ! nat i)"
| "subscript hotels j = None"

text \<open>The loop over the rankings, with \<open>results\<close> as accumulator; \<open>None\<close> when it raises.\<close>

fun rank_loop :: "Hotel list \<Rightarrow> json list \<Rightarrow> Ranked list \<Rightarrow> Ranked list option" where
  "rank_loop hotels [] results = Some results"
| "rank_loop hotels (rank # rest) results =
     (case dict_get rank ''index'' JNull of
        None \<Rightarrow> None
      | Some idx \<Rightarrow>
         (case index_in_range idx (length hotels) of
            None \<Rightarrow> None
          | Some False \<Rightarrow> rank_loop hotels rest results
          | Some True \<Rightarrow>
             (case subscript hotels idx of
                None \<Rightarrow> None
              | Some h \<Rightarrow>
                 (case dict_get rank ''score'' (JInt 0) of
                    None \<Rightarrow> None
                  | Some s \<Rightarrow>
                     (case dict_get rank ''reasoning'' (JStr ''AI Recommended'') of
                        None \<Rightarrow> None
                      | Some r \<Rightarrow>
                          rank_loop hotels rest
                            (results @ [\<lparr>ranked_hotel = h, ranked_score = s,
                                         ranked_reasoning = r\<rparr>]))))))"

text \<open>Every exception inside the \<open>try\<close> is caught, printed, and answered with the empty list.\<close>

definition rerank_hotels :: "Env \<Rightarrow> Hotel list \<Rightarrow> UserPreference \<Rightarrow> Ranked list" where
  "rerank_hotels env hotels user_pref =
     (if \<not> truthy (trip_description user_pref) \<or> \<not> truthy (api_key env) then []
      else
        (case remote_rankings env hotels user_pref of
           None \<Rightarrow> []
         | Some rankings \<Rightarrow>
            (case iterate rankings of
               None \<Rightarrow> []
             | Some items \<Rightarrow>
                (case rank_loop hotels items [] of
                   None \<Rightarrow> []
                 | Some results \<Rightarrow> results))))"

section \<open>The reranker contract in the specification's words\<close>

text \<open>
  The expected structure of the remote reply is a JSON array of objects. The reranker is
  unavailable when the preference has no trip description, no API key is configured, the
  remote call fails, or the reply does not parse as that structure.
\<close>

fun is_object :: "json \<Rightarrow> bool" where
  "is_object (JObj kvs) = True"
| "is_object j = False"

fun ranking_array :: "json \<Rightarrow> bool" where
  "ranking_array (JArr xs) = list_all is_object xs"
| "ranking_array j = False"

definition rerank_unavailable :: "Env \<Rightarrow> Hotel list \<Rightarrow> UserPreference \<Rightarrow> bool" where
  "rerank_unavailable env hotels user_pref =
     (\<not> truthy (trip_description user_pref) \<or> \<not> truthy (api_key env) \<or>
      (case generate_content env (rerank_prompt env hotels user_pref) of
         None \<Rightarrow> True
       | Some reply \<Rightarrow>
          (case json_loads env (unfence reply) of
             None \<Rightarrow> True
           | Some rankings \<Rightarrow> \<not> ranking_array rankings)))"


fun ranking_item :: "nat \<Rightarrow> json \<Rightarrow> bool" where
  "ranking_item n (JObj kvs) =
     (case map_of kvs ''index'' of
        None \<Rightarrow> True
      | Some JNull \<Rightarrow> True
      | Some (JInt i) \<Rightarrow> True
      | Some (JBool b) \<Rightarrow> True
      | Some (JFloat f) \<Rightarrow> \<not> (fle (Fin 0) f \<and> flt f (Fin (of_nat n)))
      | Some v \<Rightarrow> False)"
| "ranking_item n j = False"

text \<open>
  An item stops the loop with an exception when it is not an object, or when its index
  is a string, a list, a dict, or a float inside \<open>[0, n)\<close>.
\<close>

fun raising_item :: "nat \<Rightarrow> json \<Rightarrow> bool" where
  "raising_item n (JObj kvs) =
     (case map_of kvs ''index'' of
        Some (JFloat f) \<Rightarrow> fle (Fin 0) f \<and> flt f (Fin (of_nat n))
      | Some (JStr s) \<Rightarrow> True
      | Some (JArr xs) \<Rightarrow> True
      | Some (JObj x) \<Rightarrow> True
      | _ \<Rightarrow> False)"
| "raising_item n j = True"



section \<open>Sample surroundings\<close>

text \<open>
  A float formatter that agrees with Python on the floats of the sample hotels, a
  preference, and the remote services: none configured, one that raises, one that
  answers with a line feed only, one that answers with a ranking, one that answers with
  a single object, and one whose ranking carries the index 1.0.
\<close>

definition sample_float_str :: "pyfloat \<Rightarrow> string" where
  "sample_float_str f =
     (if f = Fin 5 then ''5.0'' else if f = Fin 4 then ''4.0'' else if f = Fin 3 then ''3.0''
      else if f = Fin 80 then ''80.0'' else if f = Fin 150 then ''150.0''
      else if f = Fin 500 then ''500.0'' else if f = Fin 20000 then ''20000.0'' else ''nan'')"

definition pref_beach :: UserPreference where
  "pref_beach = \<lparr>pref_location = Some ''Miami'', min_price = Fin 0, max_price = Fin 500,
     required_amenities = [], trip_description = Some ''quiet beach weekend''\<rparr>"

definition pref_plain :: UserPreference where
  "pref_plain = \<lparr>pref_location = None, min_price = Fin 0, max_price = Fin 500,
     required_amenities = [], trip_description = None\<rparr>"

definition env_unconfigured :: Env where
  "env_unconfigured = \<lparr>api_key = None, generate_content = (\<lambda>prompt. None),
     json_loads = (\<lambda>text. None), float_str = sample_float_str\<rparr>"

definition env_failing :: Env where
  "env_failing = \<lparr>api_key = Some ''key'', generate_content = (\<lambda>prompt. None),
     json_loads = (\<lambda>text. None), float_str = sample_float_str\<rparr>"

definition env_blank :: Env where
  "env_blank = \<lparr>api_key = Some ''key'', generate_content = (\<lambda>prompt. Some [CHR 0x0A]),
     json_loads = (\<lambda>text. None), float_str = sample_float_str\<rparr>"

definition sample_rankings :: "json list" where
  "sample_rankings =
     [JObj [(''index'', JInt 1), (''score'', JInt 90), (''reasoning'', JStr ''Great'')],
      JObj [(''index'', JInt 7), (''score'', JInt 80)],
      JObj [(''score'', JInt 5)],
      JObj [(''index'', JInt (- 1))],
      JObj [(''index'', JFloat (Fin 7)), (''score'', JInt 70)],
      JObj [(''index'', JNull), (''score'', JInt 60)],
      JObj [(''index'', JInt 0)],
      JObj [(''index'', JBool True), (''reasoning'', JStr ''Fine'')]]"

definition env_ranking :: Env where
  "env_ranking = \<lparr>api_key = Some ''key'', generate_content = (\<lambda>prompt. Some ''[...]''),
     json_loads = (\<lambda>text. Some (JArr sample_rankings)), float_str = sample_float_str\<rparr>"

definition env_not_array :: Env where
  "env_not_array = \<lparr>api_key = Some ''key'', generate_content = (\<lambda>prompt. Some ''{...}''),
     json_loads = (\<lambda>text. Some (JObj [(''index'', JInt 0)])), float_str = sample_float_str\<rparr>"



section \<open>The recommendations endpoint (main.py, get\_recommendations)\<close>

text \<open>The pydantic model \<open>RecommendationResponse\<close> of models.py.\<close>

record RecommendationResponse =
  rec_hotel :: Hotel
  rec_score :: pyfloat
  rec_reasoning :: string

text \<open>
  The surroundings of the endpoint:
  \<^item> \<open>logic_env\<close> is the environment of logic.py;
  \<^item> \<open>get_all_hotels\<close> is what \<open>get_all_hotels()\<close> of db.py returns for this request: the
    rows of the table, or the empty list when the database is not configured or fails;
  \<^item> \<open>make_response\<close> is \<open>RecommendationResponse(**r)\<close> for an entry of the reranker's
    result, \<open>None\<close> when pydantic refuses the score or the reasoning it carries.
\<close>

record Api =
  logic_env :: Env
  get_all_hotels :: "Hotel list"
  make_response :: "Ranked \<Rightarrow> RecommendationResponse option"








definition filtered_hotels :: "Api \<Rightarrow> UserPreference \<Rightarrow> Hotel list" where
  "filtered_hotels api user_pref =
     filter_hotels (get_all_hotels api) (pref_location user_pref) (min_price user_pref)
       (max_price user_pref) (required_amenities user_pref)"









section \<open>Properties of float rounding\<close>

lemma fle_trans: "fle a b \<Longrightarrow> fle b c \<Longrightarrow> fle a c"
  by (cases a; cases b; cases c) auto

lemma flt_not_fle: "flt a b \<Longrightarrow> \<not> fle b a"
  by (cases a; cases b) auto

lemma rne_ge_floor: "\<lfloor>x\<rfloor> \<le> rne x"
  by (simp add: rne_def Let_def)

lemma rne_le_floor: "rne x \<le> \<lfloor>x\<rfloor> + 1"
  by (simp add: rne_def Let_def)

lemma rne_frac:
  "rne x = (if x - of_int \<lfloor>x\<rfloor> < 1/2 then \<lfloor>x\<rfloor>
            else if 1/2 < x - of_int \<lfloor>x\<rfloor> then \<lfloor>x\<rfloor> + 1
            else if even \<lfloor>x\<rfloor> then \<lfloor>x\<rfloor> else \<lfloor>x\<rfloor> + 1)"
  by (simp add: rne_def Let_def)

lemma rne_mono: "x \<le> y \<Longrightarrow> rne x \<le> rne y"
proof -
  assume le: "x \<le> y"
  show ?thesis
  proof (cases "\<lfloor>x\<rfloor> = \<lfloor>y\<rfloor>")
    case True
    define f where "f = \<lfloor>y\<rfloor>"
    define dx dy where "dx = x - of_int f" and "dy = y - of_int f"
    have d: "dx \<le> dy" using le by (simp add: dx_def dy_def)
    have rx: "rne x = (if dx < 1/2 then f else if 1/2 < dx then f + 1
        else if even f then f else f + 1)"
      unfolding dx_def f_def True [symmetric] by (rule rne_frac)
    have ry: "rne y = (if dy < 1/2 then f else if 1/2 < dy then f + 1
        else if even f then f else f + 1)"
      unfolding dy_def f_def by (rule rne_frac)
    show ?thesis
      unfolding rx ry using d by (simp split: if_splits)
  next
    case False
    with le have "\<lfloor>x\<rfloor> + 1 \<le> \<lfloor>y\<rfloor>"
      using floor_mono [of x y] by linarith
    with rne_le_floor [of x] rne_ge_floor [of y] show ?thesis
      by linarith
  qed
qed

lemma rne_of_int [simp]: "rne (of_int k) = k"
  by (simp add: rne_def)

lemma rne_le_int: "x \<le> of_int k \<Longrightarrow> rne x \<le> k"
  using rne_mono [of x "of_int k"] by simp

lemma rne_ge_int: "of_int k \<le> x \<Longrightarrow> k \<le> rne x"
  using rne_mono [of "of_int k" x] by simp

lemma rne_near: "\<bar>of_int (rne x) - x\<bar> \<le> 1/2"
proof -
  define f where "f = \<lfloor>x\<rfloor>"
  define d where "d = x - of_int f"
  have d: "0 \<le> d" "d < 1"
    unfolding d_def f_def by linarith+
  have x: "x = of_int f + d" by (simp add: d_def)
  have r: "rne x = (if d < 1/2 then f else if 1/2 < d then f + 1
      else if even f then f else f + 1)"
    unfolding d_def f_def by (rule rne_frac)
  show ?thesis
    unfolding r using d by (simp add: x split: if_splits)
qed

lemma ilog2_bounds:
  assumes "0 < x"
  shows "2 powi ilog2 x \<le> x" and "x < 2 powi (ilog2 x + 1)"
proof -
  obtain a b where q: "quotient_of x = (a, b)"
    by (cases "quotient_of x")
  then have b: "0 < b" and x: "x = of_int a / of_int b"
    using quotient_of_denom_pos [OF q] quotient_of_div [OF q] by simp_all
  with assms have a: "0 < a"
    by (simp add: zero_less_divide_iff)
  define la lb where "la = bitlen a" and "lb = bitlen b"
  have la: "1 \<le> la" and lb: "1 \<le> lb"
    using a b bitlen_eq_zero_iff [of a] bitlen_eq_zero_iff [of b] bitlen_nonneg [of a]
      bitlen_nonneg [of b]
    unfolding la_def lb_def by linarith+
  have ba: "2 ^ nat (la - 1) \<le> a" "a < 2 ^ nat la"
    using bitlen_bounds [OF a] unfolding la_def by simp_all
  have bb: "2 ^ nat (lb - 1) \<le> b" "b < 2 ^ nat lb"
    using bitlen_bounds [OF b] unfolding lb_def by simp_all
  have ra: "(2::rat) powi (la - 1) \<le> of_int a" "of_int a < (2::rat) powi la"
  proof -
    have "(of_int (2 ^ nat (la - 1)) :: rat) \<le> of_int a"
      using ba(1) by (simp only: of_int_le_iff)
    then show "(2::rat) powi (la - 1) \<le> of_int a"
      using la by (simp add: power_int_def)
    have "(of_int a :: rat) < of_int (2 ^ nat la)"
      using ba(2) by (simp only: of_int_less_iff)
    then show "of_int a < (2::rat) powi la"
      using la by (simp add: power_int_def)
  qed
  have rb: "(2::rat) powi (lb - 1) \<le> of_int b" "of_int b < (2::rat) powi lb"
  proof -
    have "(of_int (2 ^ nat (lb - 1)) :: rat) \<le> of_int b"
      using bb(1) by (simp only: of_int_le_iff)
    then show "(2::rat) powi (lb - 1) \<le> of_int b"
      using lb by (simp add: power_int_def)
    have "(of_int b :: rat) < of_int (2 ^ nat lb)"
      using bb(2) by (simp only: of_int_less_iff)
    then show "of_int b < (2::rat) powi lb"
      using lb by (simp add: power_int_def)
  qed
  have bpos: "(0::rat) < of_int b" using b by simp
  have lo: "(2::rat) powi (la - lb - 1) < x"
  proof -
    have "(2::rat) powi (la - lb - 1) * of_int b < 2 powi (la - lb - 1) * 2 powi lb"
      using rb(2) by (simp add: mult_strict_left_mono)
    also have "\<dots> = 2 powi (la - 1)"
      by (simp add: power_int_add [symmetric])
    also have "\<dots> \<le> of_int a" by (rule ra(1))
    finally show ?thesis
      using bpos by (simp add: x pos_less_divide_eq)
  qed
  have hi: "x < (2::rat) powi (la - lb + 1)"
  proof -
    have "of_int a < (2::rat) powi la" by (rule ra(2))
    also have "\<dots> = 2 powi (la - lb + 1) * 2 powi (lb - 1)"
      by (simp add: power_int_add [symmetric])
    also have "\<dots> \<le> 2 powi (la - lb + 1) * of_int b"
      using rb(1) by (simp add: mult_left_mono)
    finally show ?thesis
      using bpos by (simp add: x pos_divide_less_eq)
  qed
  have il: "ilog2 x = (if 2 powi (la - lb) \<le> x then la - lb else la - lb - 1)"
    by (simp add: ilog2_def q la_def lb_def)
  show "2 powi ilog2 x \<le> x"
    using lo by (simp add: il)
  show "x < 2 powi (ilog2 x + 1)"
    using hi by (auto simp: il not_le)
qed

lemma pow2_mono: "(a::int) \<le> b \<Longrightarrow> (2::rat) powi a \<le> 2 powi b"
  by (rule power_int_increasing) simp_all

lemma pow2_less_imp: "(2::rat) powi a < 2 powi b \<Longrightarrow> a < b"
  using pow2_mono [of b a] by (cases "a < b") simp_all

lemma pow2_split: "(2::rat) powi (a + b) = 2 powi a * 2 powi b"
  by (simp add: power_int_add)

lemma ilog2_unique:
  assumes "0 < x" "2 powi k \<le> x" "x < 2 powi (k + 1)"
  shows "ilog2 x = k"
proof -
  have "(2::rat) powi ilog2 x < 2 powi (k + 1)"
    using ilog2_bounds(1) [OF assms(1)] assms(3) by (rule le_less_trans)
  then have a: "ilog2 x < k + 1" by (rule pow2_less_imp)
  have "(2::rat) powi k < 2 powi (ilog2 x + 1)"
    using assms(2) ilog2_bounds(2) [OF assms(1)] by (rule le_less_trans)
  then have "k < ilog2 x + 1" by (rule pow2_less_imp)
  with a show ?thesis by simp
qed

lemma ilog2_mono:
  assumes "0 < x" "x \<le> y"
  shows "ilog2 x \<le> ilog2 y"
proof -
  have y: "0 < y" using assms by simp
  have "(2::rat) powi ilog2 x \<le> x" by (rule ilog2_bounds(1) [OF assms(1)])
  also have "x \<le> y" by fact
  also have "y < 2 powi (ilog2 y + 1)" by (rule ilog2_bounds(2) [OF y])
  finally have "ilog2 x < ilog2 y + 1" by (rule pow2_less_imp)
  then show ?thesis by simp
qed

lemma expo_mono: "x \<noteq> 0 \<Longrightarrow> \<bar>x\<bar> \<le> \<bar>y\<bar> \<Longrightarrow> expo x \<le> expo y"
  unfolding expo_def using ilog2_mono [of "\<bar>x\<bar>" "\<bar>y\<bar>"] by simp

lemma expo_upper: "x \<noteq> 0 \<Longrightarrow> \<bar>x\<bar> < 2 powi (expo x + 1)"
proof -
  assume "x \<noteq> 0"
  then have "\<bar>x\<bar> < 2 powi (ilog2 \<bar>x\<bar> + 1)"
    by (simp add: ilog2_bounds(2))
  also have "\<dots> \<le> 2 powi (expo x + 1)"
    by (rule pow2_mono) (simp add: expo_def)
  finally show ?thesis .
qed

lemma expo_lower: "x \<noteq> 0 \<Longrightarrow> - 1022 < expo x \<Longrightarrow> 2 powi expo x \<le> \<bar>x\<bar>"
proof -
  assume x: "x \<noteq> 0" and "- 1022 < expo x"
  then have "expo x = ilog2 \<bar>x\<bar>"
    by (simp add: expo_def max_def split: if_splits)
  with x show ?thesis
    by (simp add: ilog2_bounds(1))
qed

lemma expo_minus [simp]: "expo (- x) = expo x"
  by (simp add: expo_def)

lemma quantum_minus [simp]: "quantum (- x) = quantum x"
  by (simp add: quantum_def)

lemma quantum_pos [simp]: "0 < quantum x"
  by (simp add: quantum_def)

lemma quantum_nonneg [simp]: "0 \<le> quantum x"
  by (simp add: quantum_def)

lemma quantum_53: "quantum x * 2 ^ 53 = 2 powi (expo x + 1)"
proof -
  have eq: "expo x + 1 = (expo x - 52) + 53" by simp
  have "(2::rat) powi (expo x + 1) = 2 powi (expo x - 52) * 2 powi 53"
    by (subst eq) (rule pow2_split)
  then show ?thesis by (simp add: quantum_def)
qed

lemma quantum_52: "quantum x * 2 ^ 52 = 2 powi (expo x)"
proof -
  have "(2::rat) powi (expo x - 52 + 52) = 2 powi (expo x - 52) * 2 powi 52"
    by (rule pow2_split)
  then show ?thesis by (simp add: quantum_def)
qed

lemma rne_minus: "rne (- x) = - rne x"
proof (cases "x = of_int \<lfloor>x\<rfloor>")
  case True
  then obtain k where "x = of_int k" ..
  then have "- x = of_int (- k)" by simp
  then show ?thesis
    unfolding \<open>x = of_int k\<close> by (simp only: rne_of_int)
next
  case False
  define f where "f = \<lfloor>x\<rfloor>"
  define d where "d = x - of_int f"
  have "\<lceil>x\<rceil> = f + 1"
    using False by (simp add: ceiling_altdef f_def)
  then have fl: "\<lfloor>- x\<rfloor> = - f - 1"
    by (simp add: ceiling_def)
  have d: "0 < d" "d < 1"
    using False unfolding d_def f_def by linarith+
  have dm: "- x - of_int (- f - 1) = 1 - d"
    by (simp add: d_def)
  have r: "rne x = (if d < 1/2 then f else if 1/2 < d then f + 1
      else if even f then f else f + 1)"
    unfolding d_def f_def by (rule rne_frac)
  have rm: "rne (- x) = (if 1 - d < 1/2 then - f - 1 else if 1/2 < 1 - d then - f - 1 + 1
      else if even (- f - 1) then - f - 1 else - f - 1 + 1)"
    using rne_frac [of "- x"] unfolding fl dm .
  show ?thesis
    unfolding r rm using d by (simp split: if_splits)
qed

lemma rounded_minus: "rounded (- x) = - rounded x"
  by (simp add: rounded_def rne_minus)

lemma rounded_zero [simp]: "rounded 0 = 0"
  by (simp add: rounded_def)

lemma rounded_nonneg: "0 \<le> x \<Longrightarrow> 0 \<le> rounded x"
proof -
  assume "0 \<le> x"
  then have "of_int 0 \<le> x / quantum x" by (simp add: divide_nonneg_pos)
  then have "0 \<le> rne (x / quantum x)" by (rule rne_ge_int)
  then show ?thesis by (simp add: rounded_def mult_nonneg_nonneg)
qed

lemma rounded_pos_upper:
  assumes "0 < x"
  shows "rounded x \<le> 2 powi (expo x + 1)"
proof -
  have "x < 2 powi (expo x + 1)"
    using expo_upper [of x] assms by simp
  then have "x < quantum x * 2 ^ 53"
    by (simp only: quantum_53)
  then have "x / quantum x \<le> of_int (2 ^ 53)"
    by (simp add: pos_divide_le_eq mult.commute)
  then have "rne (x / quantum x) \<le> 2 ^ 53" by (rule rne_le_int)
  then have "(of_int (rne (x / quantum x)) :: rat) \<le> of_int (2 ^ 53)"
    by (simp only: of_int_le_iff)
  then have "of_int (rne (x / quantum x)) * quantum x \<le> of_int (2 ^ 53) * quantum x"
    by (simp add: mult_right_mono)
  also have "\<dots> = 2 powi (expo x + 1)"
    using quantum_53 [of x] by (simp add: mult.commute)
  finally show ?thesis using assms by (simp add: rounded_def)
qed

lemma rounded_pos_lower:
  assumes "0 < x" "- 1022 < expo x"
  shows "2 powi expo x \<le> rounded x"
proof -
  have "2 powi expo x \<le> x"
    using expo_lower [of x] assms by simp
  then have "quantum x * 2 ^ 52 \<le> x"
    by (simp only: quantum_52)
  then have "of_int (2 ^ 52) \<le> x / quantum x"
    by (simp add: pos_le_divide_eq mult.commute)
  then have "2 ^ 52 \<le> rne (x / quantum x)" by (rule rne_ge_int)
  then have "(of_int (2 ^ 52) :: rat) \<le> of_int (rne (x / quantum x))"
    by (simp only: of_int_le_iff)
  then have a: "of_int (2 ^ 52) * quantum x \<le> of_int (rne (x / quantum x)) * quantum x"
    by (simp add: mult_right_mono)
  have b: "of_int (2 ^ 52) * quantum x = 2 powi expo x"
    using quantum_52 [of x] by (simp add: mult.commute)
  from a have "2 powi expo x \<le> of_int (rne (x / quantum x)) * quantum x"
    unfolding b .
  then show ?thesis using assms by (simp add: rounded_def)
qed

lemma rounded_mono_pos:
  assumes "0 < x" "x \<le> y"
  shows "rounded x \<le> rounded y"
proof -
  have y: "0 < y" using assms by simp
  have e: "expo x \<le> expo y"
    using expo_mono [of x y] assms by simp
  show ?thesis
  proof (cases "expo x = expo y")
    case True
    then have q: "quantum x = quantum y" by (simp add: quantum_def)
    have "x / quantum y \<le> y / quantum y"
      using assms(2) by (simp add: divide_right_mono)
    then have "rne (x / quantum y) \<le> rne (y / quantum y)" by (rule rne_mono)
    then have "(of_int (rne (x / quantum y)) :: rat) \<le> of_int (rne (y / quantum y))"
      by (simp only: of_int_le_iff)
    then have "of_int (rne (x / quantum y)) * quantum y \<le> of_int (rne (y / quantum y)) * quantum y"
      by (simp add: mult_right_mono)
    then show ?thesis
      using assms(1) y by (simp add: rounded_def q)
  next
    case False
    with e have lt: "expo x + 1 \<le> expo y" by simp
    have "- 1022 \<le> expo x" by (simp add: expo_def)
    with lt have "- 1022 < expo y" by simp
    have "rounded x \<le> 2 powi (expo x + 1)" by (rule rounded_pos_upper [OF assms(1)])
    also have "\<dots> \<le> 2 powi expo y" using lt by (rule pow2_mono)
    also have "\<dots> \<le> rounded y" by (rule rounded_pos_lower [OF y \<open>- 1022 < expo y\<close>])
    finally show ?thesis .
  qed
qed

lemma rounded_mono: "x \<le> y \<Longrightarrow> rounded x \<le> rounded y"
proof -
  assume le: "x \<le> y"
  consider "0 < x" | "y < 0" | "x \<le> 0" "0 \<le> y" by linarith
  then show ?thesis
  proof cases
    case 1
    then show ?thesis using le by (rule rounded_mono_pos)
  next
    case 2
    then have "0 < - y" "- y \<le> - x" using le by simp_all
    then have "rounded (- y) \<le> rounded (- x)" by (rule rounded_mono_pos)
    then show ?thesis by (simp add: rounded_minus)
  next
    case 3
    then have "0 \<le> rounded (- x)" "0 \<le> rounded y"
      by (simp_all add: rounded_nonneg)
    then show ?thesis by (simp add: rounded_minus)
  qed
qed

lemma rounded_exact:
  assumes x: "x = of_int m * 2 powi e" and m: "\<bar>m\<bar> < 2 ^ 53" and e: "- 1074 \<le> e"
  shows "rounded x = x"
proof (cases "x = 0")
  case True
  then show ?thesis by simp
next
  case False
  have "\<bar>x\<bar> = of_int \<bar>m\<bar> * 2 powi e"
    by (simp add: x abs_mult)
  also have "\<dots> < of_int (2 ^ 53) * 2 powi e"
    using m by (simp add: mult_strict_right_mono del: of_int_power of_int_numeral)
  also have "\<dots> = 2 powi (53 + e)"
    by (simp add: pow2_split)
  finally have ub: "\<bar>x\<bar> < 2 powi (53 + e)" .
  have "(2::rat) powi ilog2 \<bar>x\<bar> \<le> \<bar>x\<bar>"
    using False by (simp add: ilog2_bounds(1))
  with ub have "(2::rat) powi ilog2 \<bar>x\<bar> < 2 powi (53 + e)"
    by linarith
  then have "ilog2 \<bar>x\<bar> < 53 + e" by (rule pow2_less_imp)
  with e have E: "expo x \<le> e + 52"
    by (simp add: expo_def)
  define j where "j = nat (e + 52 - expo x)"
  have je: "e = int j + (expo x - 52)"
    using E by (simp add: j_def)
  have "(2::rat) powi e = 2 powi (int j) * 2 powi (expo x - 52)"
    by (subst je) (rule pow2_split)
  then have pe: "(2::rat) powi e = 2 ^ j * quantum x"
    by (simp add: quantum_def)
  have "x = of_int m * 2 powi e" by (rule x)
  also have "\<dots> = of_int m * (2 ^ j * quantum x)" by (simp only: pe)
  finally have xq: "x = of_int m * 2 ^ j * quantum x" by (simp only: mult.assoc)
  have q0: "quantum x \<noteq> 0" by (simp add: quantum_def)
  from xq have "x / quantum x = (of_int m * 2 ^ j * quantum x) / quantum x"
    by (rule arg_cong [where f = "\<lambda>t. t / quantum x"])
  also have "\<dots> = of_int m * 2 ^ j" using q0 by simp
  also have "\<dots> = of_int (m * 2 ^ j)" by simp
  finally have r: "rne (x / quantum x) = m * 2 ^ j"
    by (simp only: rne_of_int)
  have "of_int (m * 2 ^ j) * quantum x = x"
    using xq [symmetric] by (simp only: of_int_mult of_int_power of_int_numeral)
  then have "of_int (rne (x / quantum x)) * quantum x = x"
    by (simp only: r)
  then show ?thesis
    using False by (simp only: rounded_def if_False)
qed

lemma rounded_int: "\<bar>k\<bar> < 2 ^ 53 \<Longrightarrow> rounded (of_int k) = of_int k"
  using rounded_exact [of "of_int k" k 0] by simp

lemma pow2_1024_big: "(2::rat) ^ 53 \<le> 2 powi 1024"
proof -
  have "(2::rat) powi 53 \<le> 2 powi 1024" by (rule pow2_mono) simp
  then show ?thesis by simp
qed

lemma fl_rounded:
  "\<bar>rounded x\<bar> < 2 powi 1024 \<Longrightarrow> fl x = Fin (rounded x)"
  by (auto simp: fl_def Let_def)

lemma fl_int: "\<bar>k\<bar> < 2 ^ 53 \<Longrightarrow> fl (of_int k) = Fin (of_int k)"
proof -
  assume k: "\<bar>k\<bar> < 2 ^ 53"
  then have r: "rounded (of_int k) = of_int k" by (rule rounded_int)
  have "(of_int \<bar>k\<bar> :: rat) < of_int (2 ^ 53)"
    using k by (simp only: of_int_less_iff)
  then have "\<bar>of_int k :: rat\<bar> < 2 ^ 53" by simp
  with pow2_1024_big have "\<bar>of_int k :: rat\<bar> < 2 powi 1024"
    by linarith
  then show ?thesis
    using fl_rounded [of "of_int k"] by (simp add: r)
qed

lemma fl_double: "is_double x \<Longrightarrow> fl x = Fin x"
  using fl_rounded [of x] by (simp add: is_double_def)

lemma fl_not_NaN [simp]: "fl x \<noteq> NaN"
  by (simp add: fl_def Let_def)

lemma pow2_1024_pos: "(0::rat) < 2 powi 1024"
  by simp

lemma fl_mono: "x \<le> y \<Longrightarrow> fle (fl x) (fl y)"
proof -
  assume "x \<le> y"
  then have r: "rounded x \<le> rounded y" by (rule rounded_mono)
  define T :: rat where "T = 2 powi 1024"
  have T: "0 < T" unfolding T_def by (rule pow2_1024_pos)
  have fx: "fl x = (if T \<le> rounded x then PInf else if rounded x \<le> - T then NInf
      else Fin (rounded x))"
    by (simp add: fl_def Let_def T_def)
  have fy: "fl y = (if T \<le> rounded y then PInf else if rounded y \<le> - T then NInf
      else Fin (rounded y))"
    by (simp add: fl_def Let_def T_def)
  show ?thesis
    unfolding fx fy using r T by (simp split: if_splits)
qed

lemma fl_le_int: "x \<le> of_int k \<Longrightarrow> \<bar>k\<bar> < 2 ^ 53 \<Longrightarrow> fle (fl x) (Fin (of_int k))"
  using fl_mono [of x "of_int k"] by (simp add: fl_int)

lemma fl_ge_int: "of_int k \<le> x \<Longrightarrow> \<bar>k\<bar> < 2 ^ 53 \<Longrightarrow> fle (Fin (of_int k)) (fl x)"
  using fl_mono [of "of_int k" x] by (simp add: fl_int)

lemma fle_between:
  "fle (Fin a) f \<Longrightarrow> fle f (Fin b) \<Longrightarrow> \<exists>r. f = Fin r \<and> a \<le> r \<and> r \<le> b"
  by (cases f) simp_all

lemma fl_range:
  assumes "of_int a \<le> x" "x \<le> of_int b" "\<bar>a\<bar> < 2 ^ 53" "\<bar>b\<bar> < 2 ^ 53"
  shows "\<exists>r. fl x = Fin r \<and> of_int a \<le> r \<and> r \<le> of_int b"
  using fl_ge_int [OF assms(1) assms(3)] fl_le_int [OF assms(2) assms(4)]
  by (rule fle_between)

lemma double_repr:
  assumes "is_double x" "0 < x"
  obtains a where "x = of_int a * quantum x" "0 < a" "a < 2 ^ 53"
proof -
  define a where "a = rne (x / quantum x)"
  have xa: "x = of_int a * quantum x"
    using assms by (simp add: is_double_def rounded_def a_def split: if_splits)
  have "0 < of_int a * quantum x" using assms(2) xa by simp
  then have "(0::rat) < of_int a"
    using quantum_pos [of x] by (simp add: zero_less_mult_iff)
  then have a0: "0 < a" by simp
  have "x < 2 powi (expo x + 1)"
    using expo_upper [of x] assms(2) by simp
  then have "x < quantum x * 2 ^ 53" by (simp only: quantum_53)
  then have "of_int a * quantum x < 2 ^ 53 * quantum x"
    using xa by (simp only: mult.commute)
  then have "(of_int a :: rat) < 2 ^ 53"
    using quantum_pos [of x] by (simp only: mult_less_cancel_right_pos)
  then have "(of_int a :: rat) < of_int (2 ^ 53)" by simp
  then have "a < 2 ^ 53" by (simp only: of_int_less_iff)
  with xa a0 show ?thesis by (rule that)
qed

lemma quantum_scale:
  assumes "expo m \<le> expo p"
  shows "quantum p = 2 ^ nat (expo p - expo m) * quantum m"
proof -
  define j where "j = nat (expo p - expo m)"
  have e: "expo p - 52 = int j + (expo m - 52)"
    using assms by (simp add: j_def)
  have "(2::rat) powi (expo p - 52) = 2 powi (int j) * 2 powi (expo m - 52)"
    by (subst e) (rule pow2_split)
  then have "(2::rat) powi (expo p - 52) = 2 ^ j * 2 powi (expo m - 52)"
    by (simp only: power_int_of_nat)
  then show ?thesis
    unfolding quantum_def j_def .
qed

lemma double_gap:
  assumes m: "is_double m" and p: "is_double p" and m0: "0 < m" and mp: "m < p"
  shows "1 + 1 / 2 ^ 53 < p / m"
proof -
  have p0: "0 < p" using m0 mp by simp
  obtain a where a: "m = of_int a * quantum m" "0 < a" "a < 2 ^ 53"
    using m m0 by (rule double_repr)
  obtain b where b: "p = of_int b * quantum p" "0 < b" "b < 2 ^ 53"
    using p p0 by (rule double_repr)
  have "expo m \<le> expo p"
    using expo_mono [of m p] m0 mp by simp
  then have qp: "quantum p = 2 ^ nat (expo p - expo m) * quantum m"
    by (rule quantum_scale)
  define c where "c = b * 2 ^ nat (expo p - expo m)"
  define q where "q = quantum m"
  have q0: "0 < q" by (simp add: q_def)
  have mq: "m = of_int a * q" using a(1) by (simp only: q_def)
  have "p = of_int b * (2 ^ nat (expo p - expo m) * quantum m)"
    using b(1) by (simp only: qp)
  then have pq: "p = of_int c * q"
    by (simp add: c_def q_def)
  have "of_int a * q < of_int c * q"
    using mp by (simp only: mq pq)
  then have "(of_int a :: rat) < of_int c"
    using q0 by (simp only: mult_less_cancel_right_pos)
  then have "a < c" by (simp only: of_int_less_iff)
  then have "a + 1 \<le> c" by simp
  then have "(of_int (a + 1) :: rat) \<le> of_int c" by (simp only: of_int_le_iff)
  then have "of_int (a + 1) * q \<le> of_int c * q"
    using q0 by (simp add: mult_right_mono)
  then have step: "m + q \<le> p"
    by (simp add: mq pq algebra_simps)
  have "(of_int a :: rat) < of_int (2 ^ 53)"
    using a(3) by (simp only: of_int_less_iff)
  then have "(of_int a :: rat) < 2 ^ 53" by simp
  then have "of_int a * q < 2 ^ 53 * q"
    using q0 by (simp only: mult_less_cancel_right_pos)
  then have "m < 2 ^ 53 * q" by (simp only: mq)
  then have "m / 2 ^ 53 < q" by (simp add: pos_divide_less_eq mult.commute)
  with step have "m + m / 2 ^ 53 < p" by linarith
  then have "m * (1 + 1 / 2 ^ 53) < p" by (simp add: algebra_simps)
  then show ?thesis
    using m0 by (simp add: pos_less_divide_eq mult.commute)
qed

lemma rounded_two: "rounded 2 = 2"
  using rounded_int [of 2] by simp

lemma rounded_gt_one:
  assumes "1 + 1 / 2 ^ 53 < y"
  shows "1 < rounded y"
proof (cases "y < 2")
  case True
  have y0: "0 < y" using assms by simp
  have y1: "1 \<le> y" using assms by simp
  have "ilog2 y = 0"
    using y0 by (rule ilog2_unique) (use y1 True in simp_all)
  then have "expo y = 0" using y0 by (simp add: expo_def)
  then have q: "quantum y = 1 / 2 ^ 52"
    by (simp add: quantum_def power_int_minus_divide)
  define z where "z = y / quantum y"
  have zy: "z = y * 2 ^ 52" by (simp add: z_def q)
  have "(1 + 1 / 2 ^ 53) * 2 ^ 52 < y * (2 ^ 52 :: rat)"
    using assms by (simp only: mult_less_cancel_right_pos zero_less_power zero_less_numeral)
  then have zlow: "2 ^ 52 + 1 / 2 < z" by (simp add: zy)
  have "\<bar>of_int (rne z) - z\<bar> \<le> 1 / 2" by (rule rne_near)
  with zlow have "(2 ^ 52 :: rat) < of_int (rne z)" by linarith
  then have "(2 ^ 52 :: rat) * (1 / 2 ^ 52) < of_int (rne z) * (1 / 2 ^ 52)"
    by (simp only: mult_less_cancel_right_pos zero_less_divide_1_iff zero_less_power
        zero_less_numeral)
  then have "1 < of_int (rne z) * quantum y" by (simp add: q)
  then show ?thesis
    using y0 by (simp add: rounded_def z_def)
next
  case False
  then have "2 \<le> y" by simp
  then have "rounded 2 \<le> rounded y" by (rule rounded_mono)
  then show ?thesis by (simp add: rounded_two)
qed

lemma fl_gt_one: "1 + 1 / 2 ^ 53 < y \<Longrightarrow> flt (Fin 1) (fl y)"
proof -
  assume "1 + 1 / 2 ^ 53 < y"
  then have r: "1 < rounded y" by (rule rounded_gt_one)
  define T :: rat where "T = 2 powi 1024"
  have T: "0 < T" unfolding T_def by (rule pow2_1024_pos)
  have fy: "fl y = (if T \<le> rounded y then PInf else if rounded y \<le> - T then NInf
      else Fin (rounded y))"
    by (simp add: fl_def Let_def T_def)
  show ?thesis
    unfolding fy using r T by (simp split: if_splits)
qed

lemma ratio_test:
  assumes "is_double m" "is_double p" "0 < m"
  shows "fle (fl (p / m)) (Fin 1) = (p \<le> m)"
proof (cases "p \<le> m")
  case True
  then have "p / m \<le> of_int 1" using assms(3) by (simp add: pos_divide_le_eq)
  then have "fle (fl (p / m)) (Fin (of_int 1))" by (rule fl_le_int) simp
  with True show ?thesis by simp
next
  case False
  then have "m < p" by simp
  with assms have "1 + 1 / 2 ^ 53 < p / m" by (rule double_gap)
  then have "flt (Fin 1) (fl (p / m))" by (rule fl_gt_one)
  then have "\<not> fle (fl (p / m)) (Fin 1)" by (rule flt_not_fle)
  with False show ?thesis by simp
qed

section \<open>Properties of the filter engine\<close>

lemma starts_with_prefix: "starts_with s p = prefix p s"
  by (induction s p rule: starts_with.induct) auto

lemma str_in_sublist: "str_in sub s = sublist sub s"
proof (induction s)
  case Nil
  show ?case by simp
next
  case (Cons c cs)
  show ?case
  proof (cases sub)
    case Nil
    then show ?thesis by simp
  next
    case (Cons p ps)
    then show ?thesis
      using Cons.IH by (simp add: starts_with_prefix sublist_Cons_right)
  qed
qed

lemma missing_amenity_iff:
  "missing_amenity am lows = (\<exists>a \<in> set am. lower a \<notin> set lows)"
  by (induction am) auto

lemma filter_loop_keep:
  "satisfies_criteria loc mn mx am h \<Longrightarrow>
   filter_loop (h # hs) loc mn mx am acc = filter_loop hs loc mn mx am (acc @ [h])"
  by (cases loc) (auto simp: satisfies_criteria_def str_in_sublist missing_amenity_iff lower_def)

lemma filter_loop_drop:
  "\<not> satisfies_criteria loc mn mx am h \<Longrightarrow>
   filter_loop (h # hs) loc mn mx am acc = filter_loop hs loc mn mx am acc"
  by (cases loc) (auto simp: satisfies_criteria_def str_in_sublist missing_amenity_iff lower_def)

lemma filter_loop_acc:
  "filter_loop hs loc mn mx am acc = acc @ filter (satisfies_criteria loc mn mx am) hs"
proof (induction hs arbitrary: acc)
  case Nil
  show ?case by simp
next
  case (Cons h hs)
  show ?case
  proof (cases "satisfies_criteria loc mn mx am h")
    case True
    then show ?thesis
      by (simp add: filter_loop_keep Cons.IH del: filter_loop.simps)
  next
    case False
    then show ?thesis
      by (simp add: filter_loop_drop Cons.IH del: filter_loop.simps)
  qed
qed

lemma filter_hotels_filter:
  "filter_hotels H loc mn mx am = filter (satisfies_criteria loc mn mx am) H"
  by (simp add: filter_hotels_def filter_loop_acc)

text \<open>
  Claim C2. For every hotel collection and criteria, \<open>filter_hotels\<close> returns exactly the
  hotels that satisfy the location, price and amenity conditions of the specification;
  the result is a subsequence of the input (a subset in the original relative order), and
  an empty collection gives an empty result.
\<close>

theorem filter_hotels_exact:
  "filter_hotels H loc mn mx am = filter (satisfies_criteria loc mn mx am) H
   \<and> subseq (filter_hotels H loc mn mx am) H
   \<and> filter_hotels [] loc mn mx am = []"
  by (simp add: filter_hotels_filter)

theorem filter_hotels_exact_witness:
  "filter_hotels [hotel_a, hotel_b, hotel_c] (Some ''MIAMI'') (Fin 50) (Fin 500) [''Wifi'', ''pool'']
     = [hotel_a, hotel_c]
   \<and> filter (satisfies_criteria (Some ''MIAMI'') (Fin 50) (Fin 500) [''Wifi'', ''pool''])
        [hotel_a, hotel_b, hotel_c] = [hotel_a, hotel_c]
   \<and> subseq [hotel_a, hotel_c] [hotel_a, hotel_b, hotel_c]"
proof -
  have run: "filter_hotels [hotel_a, hotel_b, hotel_c] (Some ''MIAMI'') (Fin 50) (Fin 500)
      [''Wifi'', ''pool''] = [hotel_a, hotel_c]"
    by code_simp
  note ex = filter_hotels_exact [of "[hotel_a, hotel_b, hotel_c]" "Some ''MIAMI''" "Fin 50"
      "Fin 500" "[''Wifi'', ''pool'']"]
  from ex have e1: "filter_hotels [hotel_a, hotel_b, hotel_c] (Some ''MIAMI'') (Fin 50) (Fin 500)
        [''Wifi'', ''pool'']
      = filter (satisfies_criteria (Some ''MIAMI'') (Fin 50) (Fin 500) [''Wifi'', ''pool''])
          [hotel_a, hotel_b, hotel_c]"
    by (rule conjunct1)
  from ex have e2: "subseq (filter_hotels [hotel_a, hotel_b, hotel_c] (Some ''MIAMI'') (Fin 50)
      (Fin 500) [''Wifi'', ''pool'']) [hotel_a, hotel_b, hotel_c]"
    by (elim conjE)
  from e1 [symmetric] run
  have f: "filter (satisfies_criteria (Some ''MIAMI'') (Fin 50) (Fin 500) [''Wifi'', ''pool''])
      [hotel_a, hotel_b, hotel_c] = [hotel_a, hotel_c]"
    by (rule trans)
  from e2 have s: "subseq [hotel_a, hotel_c] [hotel_a, hotel_b, hotel_c]"
    unfolding run .
  from run f s show ?thesis
    by (intro conjI)
qed

text \<open>
  Claim C4, as stated, fails: with no criteria supplied the price check is not skipped.
  The bounds take their defaults 0 and 10000, and a hotel priced 20000 is dropped.
\<close>

theorem filter_no_criteria_counterexample:
  "filter_hotels [hotel_d] None (Fin 0) (Fin 10000) [] \<noteq> [hotel_d]"
  by code_simp

text \<open>
  Claim C4, amended. With no criteria supplied the location and amenity checks are
  skipped and the price bounds are the defaults 0 and 10000: the result is exactly the
  hotels priced within [0, 10000], in their original order, so a collection whose prices
  all lie within [0, 10000] is returned unchanged.
\<close>

theorem filter_no_criteria:
  "filter_hotels H None (Fin 0) (Fin 10000) [] = filter default_price_ok H
   \<and> ((\<forall>h \<in> set H. default_price_ok h) \<longrightarrow> filter_hotels H None (Fin 0) (Fin 10000) [] = H)"
proof -
  have "satisfies_criteria None (Fin 0) (Fin 10000) [] = default_price_ok"
    by (rule ext) (simp add: satisfies_criteria_def default_price_ok_def)
  then show ?thesis
    by (simp add: filter_hotels_filter)
qed

theorem filter_no_criteria_witness:
  "default_price_ok hotel_a \<and> default_price_ok hotel_b \<and> default_price_ok hotel_c
   \<and> filter_hotels [hotel_a, hotel_b, hotel_c] None (Fin 0) (Fin 10000) []
       = [hotel_a, hotel_b, hotel_c]"
proof -
  have ok: "default_price_ok hotel_a" "default_price_ok hotel_b" "default_price_ok hotel_c"
    by (simp_all add: default_price_ok_def hotel_a_def hotel_b_def hotel_c_def)
  then have "\<forall>h \<in> set [hotel_a, hotel_b, hotel_c]. default_price_ok h"
    by simp
  with filter_no_criteria [of "[hotel_a, hotel_b, hotel_c]"] ok show ?thesis
    by blast
qed

text \<open>
  Claim C5. An inverted price range, \<open>min > max\<close>, yields the empty list for every hotel
  collection, location and amenity list.
\<close>

theorem filter_inverted_range:
  "fgt mn mx \<Longrightarrow> filter_hotels H loc mn mx am = []"
proof -
  assume inv: "fgt mn mx"
  have "\<not> satisfies_criteria loc mn mx am h" for h
  proof
    assume "satisfies_criteria loc mn mx am h"
    then have "fle mn mx"
      unfolding satisfies_criteria_def using fle_trans by blast
    with inv show False
      by (simp add: fgt_def flt_not_fle)
  qed
  then show ?thesis
    by (simp add: filter_hotels_filter)
qed

theorem filter_inverted_range_witness:
  "fgt (Fin 300) (Fin 100) \<and> filter_hotels [hotel_a, hotel_b, hotel_c] None (Fin 300) (Fin 100) [] = []"
proof -
  have inv: "fgt (Fin 300) (Fin 100)"
    by (simp add: fgt_def)
  from inv filter_inverted_range [OF inv] show ?thesis
    by simp
qed

section \<open>Properties of the reasoning generator\<close>

lemma fallback_reason_nonempty: "fallback_reason env hotel \<noteq> []"
  by (simp add: fallback_reason_def)

text \<open>
  The fallback half of claim C6: when no API key is configured, the remote call raises, or
  the reply text is empty, the result is exactly the template sentence, which is not empty.
\<close>

lemma reason_fallback_template:
  "\<not> truthy (api_key env) \<or> generate_content env (reason_prompt env hotel user_pref) = None
     \<or> generate_content env (reason_prompt env hotel user_pref) = Some [] \<Longrightarrow>
   generate_recommendation_reason env hotel user_pref score = fallback_reason env hotel
   \<and> generate_recommendation_reason env hotel user_pref score \<noteq> []"
  by (auto simp: generate_recommendation_reason_def fallback_reason_nonempty)

lemma reason_fallback_sample:
  "generate_recommendation_reason env_unconfigured hotel_a pref_plain (Fin 100)
     = ''This hotel is a great match located in Miami Beach with a rating of 5.0. It costs $80.0 per night.''"
  by code_simp

text \<open>
  Claim C6 says the generator always returns a non-empty string. With an API key
  configured and a reply that is a single line feed, the reply passes the test
  \<open>if response.text\<close>, and the replacement and the strip leave the empty string.
\<close>

theorem reason_blank_reply_empty:
  "generate_recommendation_reason env_blank hotel_a pref_plain (Fin 100) = []"
  by code_simp

section \<open>Properties of the reranker\<close>

lemma rank_loop_not_object:
  "\<not> is_object rank \<Longrightarrow> rank_loop hotels (rank # rest) results = None"
  by (cases rank) simp_all

lemma rank_loop_all_objects:
  "rank_loop hotels items results \<noteq> None \<Longrightarrow> list_all is_object items"
proof (induction items arbitrary: results)
  case Nil
  show ?case by simp
next
  case (Cons rank rest)
  have obj: "is_object rank"
  proof (rule ccontr)
    assume "\<not> is_object rank"
    then have "rank_loop hotels (rank # rest) results = None"
      by (rule rank_loop_not_object)
    with Cons.prems show False by simp
  qed
  then obtain kvs where rank: "rank = JObj kvs"
    by (cases rank) simp_all
  from Cons.prems obtain results' where "rank_loop hotels rest results' \<noteq> None"
    unfolding rank
    by (auto split: option.splits bool.splits)
  then have "list_all is_object rest"
    by (rule Cons.IH)
  with obj show ?case by simp
qed

lemma iterate_not_array:
  "\<not> ranking_array rankings \<Longrightarrow> iterate rankings = Some items \<Longrightarrow>
   rank_loop hotels items [] = None \<or> rank_loop hotels items [] = Some []"
proof (cases rankings)
  case (JArr xs)
  assume "\<not> ranking_array rankings" "iterate rankings = Some items"
  with JArr have "\<not> list_all is_object items" by simp
  then have "rank_loop hotels items [] = None"
    using rank_loop_all_objects by blast
  then show ?thesis by simp
next
  case (JObj kvs)
  assume "iterate rankings = Some items"
  with JObj have items: "items = map (\<lambda>kv. JStr (fst kv)) kvs" by simp
  show ?thesis
    by (cases kvs) (simp_all add: items)
next
  case (JStr s)
  assume "iterate rankings = Some items"
  with JStr have items: "items = map (\<lambda>c. JStr [c]) s" by simp
  show ?thesis
    by (cases s) (simp_all add: items)
qed simp_all

lemma index_in_range_empty: "index_in_range idx 0 \<noteq> Some True"
proof (cases idx)
  case (JFloat f)
  then show ?thesis by (cases f) auto
qed auto

lemma rank_loop_no_candidates:
  "rank_loop [] items results = Some results' \<Longrightarrow> results' = results"
proof (induction items arbitrary: results)
  case Nil
  then show ?case by simp
next
  case (Cons rank rest)
  from Cons.prems obtain idx where idx: "dict_get rank ''index'' JNull = Some idx"
    by (auto split: option.splits)
  have "index_in_range idx (length ([] :: Hotel list)) \<noteq> Some True"
    using index_in_range_empty by simp
  with Cons.prems idx have "rank_loop [] rest results = Some results'"
    by (auto split: option.splits bool.splits)
  then show ?case by (rule Cons.IH)
qed

lemma rerank_unavailable_empty:
  "rerank_unavailable env hotels user_pref \<Longrightarrow> rerank_hotels env hotels user_pref = []"
  unfolding rerank_unavailable_def rerank_hotels_def remote_rankings_def
  using iterate_not_array [of _ _ hotels]
  by (fastforce split: option.splits)

lemma rerank_no_candidates: "rerank_hotels env [] user_pref = []"
  unfolding rerank_hotels_def
  using rank_loop_no_candidates
  by (fastforce split: option.splits)

text \<open>
  Claim C7. \<open>rerank_hotels\<close> returns the empty list whenever the preference has no trip
  description, no API key is configured, the remote call fails, or the reply does not
  parse as a JSON array of objects; and for an empty candidate list it returns the empty
  list whatever the remote service answers.
\<close>

theorem rerank_empty_cases:
  "(rerank_unavailable env hotels user_pref \<longrightarrow> rerank_hotels env hotels user_pref = [])
   \<and> rerank_hotels env [] user_pref = []"
  by (simp add: rerank_unavailable_empty rerank_no_candidates)

theorem rerank_empty_cases_witness:
  "rerank_unavailable env_ranking [hotel_a, hotel_b, hotel_c] pref_plain
   \<and> rerank_hotels env_ranking [hotel_a, hotel_b, hotel_c] pref_plain = []
   \<and> rerank_unavailable env_unconfigured [hotel_a, hotel_b, hotel_c] pref_beach
   \<and> rerank_hotels env_unconfigured [hotel_a, hotel_b, hotel_c] pref_beach = []
   \<and> rerank_unavailable env_failing [hotel_a, hotel_b, hotel_c] pref_beach
   \<and> rerank_hotels env_failing [hotel_a, hotel_b, hotel_c] pref_beach = []
   \<and> rerank_unavailable env_blank [hotel_a, hotel_b, hotel_c] pref_beach
   \<and> rerank_hotels env_blank [hotel_a, hotel_b, hotel_c] pref_beach = []
   \<and> rerank_unavailable env_not_array [hotel_a, hotel_b, hotel_c] pref_beach
   \<and> rerank_hotels env_not_array [hotel_a, hotel_b, hotel_c] pref_beach = []
   \<and> rerank_hotels env_ranking [] pref_beach = []"
proof -
  have u1: "rerank_unavailable env_ranking [hotel_a, hotel_b, hotel_c] pref_plain"
    by code_simp
  have u2: "rerank_unavailable env_unconfigured [hotel_a, hotel_b, hotel_c] pref_beach"
    by code_simp
  have u3: "rerank_unavailable env_failing [hotel_a, hotel_b, hotel_c] pref_beach"
    by code_simp
  have u4: "rerank_unavailable env_blank [hotel_a, hotel_b, hotel_c] pref_beach"
    by code_simp
  have u5: "rerank_unavailable env_not_array [hotel_a, hotel_b, hotel_c] pref_beach"
    by code_simp
  from u1 u2 u3 u4 u5
    rerank_empty_cases [of env_ranking "[hotel_a, hotel_b, hotel_c]" pref_plain]
    rerank_empty_cases [of env_unconfigured "[hotel_a, hotel_b, hotel_c]" pref_beach]
    rerank_empty_cases [of env_failing "[hotel_a, hotel_b, hotel_c]" pref_beach]
    rerank_empty_cases [of env_blank "[hotel_a, hotel_b, hotel_c]" pref_beach]
    rerank_empty_cases [of env_not_array "[hotel_a, hotel_b, hotel_c]" pref_beach]
    rerank_empty_cases [of env_ranking "[]" pref_beach]
  show ?thesis by blast
qed



lemma ranking_item_iff:
  "is_object item \<Longrightarrow> ranking_item n item = (\<not> raising_item n item)"
proof -
  assume "is_object item"
  then obtain kvs where item: "item = JObj kvs"
    by (cases item) simp_all
  show ?thesis
  proof (cases "map_of kvs ''index''")
    case None
    then show ?thesis by (simp add: item)
  next
    case (Some v)
    then show ?thesis by (cases v) (simp_all add: item)
  qed
qed








section \<open>Properties of the scoring engine\<close>

lemma fl_0: "fl 0 = Fin 0"
  using fl_int [of 0] by simp

lemma fl_40: "fl 40 = Fin 40"
  using fl_int [of 40] by simp

lemma rne_numeral [simp]: "rne (numeral n) = numeral n"
  using rne_of_int [of "numeral n"] by simp

lemma rne_0 [simp]: "rne 0 = 0"
  using rne_of_int [of 0] by simp

lemma fle_fl_PInf [simp]: "fle (fl x) PInf"
  using fl_not_NaN [of x] by (cases "fl x") simp_all

lemma fle_NInf_fl [simp]: "fle NInf (fl x)"
  using fl_not_NaN [of x] by (cases "fl x") simp_all

lemma fl_bounds:
  assumes "of_int a \<le> x" "x \<le> of_int b" "\<bar>a\<bar> < 2 ^ 53" "\<bar>b\<bar> < 2 ^ 53"
  obtains r where "fl x = Fin r" "of_int a \<le> r" "r \<le> of_int b"
  using fl_range [OF assms] by blast

lemma price_step_cases:
  "\<exists>c. price_step h p (Fin 0) = Some (Fin c) \<and> (c = 0 \<or> c = 40)"
proof (cases "fgt (max_price p) (Fin 0)")
  case False
  then show ?thesis by (simp add: price_step_def)
next
  case True
  then have "\<exists>ratio. fdiv (price h) (max_price p) = Some ratio"
    by (cases "max_price p"; cases "price h") (auto simp: fgt_def)
  then obtain ratio where "fdiv (price h) (max_price p) = Some ratio" ..
  with True show ?thesis
    by (simp add: price_step_def fl_40)
qed

lemma price_guard:
  assumes "valid_float a" "valid_float m" "\<not> (is_inf a \<and> m = PInf)" "fgt m (Fin 0)"
  shows "\<exists>ratio. fdiv a m = Some ratio \<and> fle ratio (Fin 1) = fle a m"
proof (cases m)
  case (Fin y)
  with assms have y: "0 < y" "is_double y" by (simp_all add: fgt_def)
  show ?thesis
  proof (cases a)
    case (Fin x)
    with assms have "is_double x" by simp
    with y have "fle (fl (x / y)) (Fin 1) = (x \<le> y)"
      by (simp add: ratio_test)
    with y show ?thesis
      unfolding \<open>m = Fin y\<close> \<open>a = Fin x\<close> by simp
  qed (use y \<open>m = Fin y\<close> in simp_all)
next
  case PInf
  with assms show ?thesis by (cases a) simp_all
qed (use assms in \<open>simp_all add: fgt_def\<close>)

lemma price_step_spec:
  assumes "valid_float (price h)" "valid_float (max_price p)"
    "\<not> (is_inf (price h) \<and> max_price p = PInf)"
  shows "price_step h p (Fin 0) = Some (price_component h p)"
proof (cases "fgt (max_price p) (Fin 0)")
  case False
  then show ?thesis by (simp add: price_step_def price_component_def within_budget_def)
next
  case True
  with assms obtain ratio where "fdiv (price h) (max_price p) = Some ratio"
    "fle ratio (Fin 1) = fle (price h) (max_price p)"
    using price_guard by blast
  with True show ?thesis
    by (simp add: price_step_def price_component_def within_budget_def fl_40)
qed

lemma fdiv_5: "fdiv a (Fin 5) \<noteq> None"
  by simp

lemma score_unfold:
  assumes "price_step h p (Fin 0) = Some c"
  shows "calculate_recommendation_score h p
    = Some (py_round1 (fadd (fadd c (rating_component h)) (amenity_component h)))"
proof -
  obtain q where q: "fdiv (rating h) (Fin 5) = Some q"
    using fdiv_5 [of "rating h"] by blast
  show ?thesis
    unfolding calculate_recommendation_score_def rating_component_def amenity_component_def
      Let_def assms q by simp
qed

lemma filter_keeps_hotel_e:
  "filter_hotels [hotel_e] (pref_location pref_unbounded) (min_price pref_unbounded)
     (max_price pref_unbounded) (required_amenities pref_unbounded) = [hotel_e]"
  by code_simp

lemma score_hotel_e: "calculate_recommendation_score hotel_e pref_unbounded = Some (Fin 60)"
proof -
  have step: "price_step hotel_e pref_unbounded (Fin 0) = Some (Fin 0)"
    by (simp add: price_step_def hotel_e_def pref_unbounded_def fgt_def)
  have r: "rating_component hotel_e = Fin 30"
    using fl_int [of 1] fl_int [of 30] by (simp add: rating_component_def hotel_e_def)
  have a: "amenity_component hotel_e = Fin 30"
    using fl_int [of 5] fl_int [of 30]
    by (simp add: amenity_component_def hotel_e_def float_of_nat_def fmin_def)
  show ?thesis
    using fl_int [of 30] fl_int [of 60] fl_int [of 600]
    by (simp add: score_unfold [OF step] r a)
qed

lemma spec_score_hotel_e: "spec_score hotel_e pref_unbounded = Some 100"
  by (simp add: spec_score_def within_budget_def round1_def hotel_e_def pref_unbounded_def
      fgt_def)

text \<open>
  Claim C1 says that the score is
  \<open>40 * [price \<le> max price and max price > 0] + (rating / 5) * 30
   + min(6 * amenity count, 30)\<close>, rounded to one decimal place, for every hotel and
  preference. The code does not compare the price with the maximum price: it tests
  \<open>hotel.price / user_pref.max_price <= 1.0\<close>. For an infinite price and an infinite
  maximum price the quotient is NaN, the test fails and the 40 points "for being within
  budget (filtered list)" are not given, although the price is at most the maximum price
  and \<open>filter_hotels\<close> keeps the hotel: the code returns 60.0 where the formula gives 100.
\<close>

theorem score_infinite_budget:
  "within_budget hotel_e pref_unbounded
   \<and> filter_hotels [hotel_e] (pref_location pref_unbounded) (min_price pref_unbounded)
       (max_price pref_unbounded) (required_amenities pref_unbounded) = [hotel_e]
   \<and> calculate_recommendation_score hotel_e pref_unbounded = Some (Fin 60)
   \<and> spec_score hotel_e pref_unbounded = Some 100"
proof -
  have "within_budget hotel_e pref_unbounded"
    by (simp add: within_budget_def hotel_e_def pref_unbounded_def fgt_def)
  with filter_keeps_hotel_e score_hotel_e spec_score_hotel_e show ?thesis
    by (intro conjI)
qed

lemma fmul_30_range:
  assumes "fle (Fin 0) a" "fle a (Fin 1)"
  shows "\<exists>t. fmul a (Fin 30) = Fin t \<and> 0 \<le> t \<and> t \<le> 30"
proof -
  obtain q where q: "a = Fin q" "0 \<le> q" "q \<le> 1"
    using fle_between [OF assms] by blast
  have "of_int 0 \<le> q * 30" "q * 30 \<le> of_int 30" using q by simp_all
  then obtain t where "fl (q * 30) = Fin t" "of_int 0 \<le> t" "t \<le> of_int 30"
    by (rule fl_bounds) simp_all
  then show ?thesis by (simp add: q)
qed

lemma rating_component_range:
  assumes "fle (Fin 0) (rating h)" "fle (rating h) (Fin 5)"
  shows "\<exists>t. rating_component h = Fin t \<and> 0 \<le> t \<and> t \<le> 30"
proof -
  obtain x where x: "rating h = Fin x" "0 \<le> x" "x \<le> 5"
    using fle_between [OF assms] by blast
  have "of_int 0 \<le> x / 5" "x / 5 \<le> of_int 1" using x by simp_all
  then obtain q where q: "fl (x / 5) = Fin q" "of_int 0 \<le> q" "q \<le> of_int 1"
    by (rule fl_bounds) simp_all
  have "fle (Fin 0) (Fin q)" "fle (Fin q) (Fin 1)" using q by simp_all
  then have "\<exists>t. fmul (Fin q) (Fin 30) = Fin t \<and> 0 \<le> t \<and> t \<le> 30"
    by (rule fmul_30_range)
  then show ?thesis
    by (simp add: rating_component_def x q)
qed

lemma fmin_30_range:
  "fle (Fin 0) y \<Longrightarrow> \<exists>a. fmin y (Fin 30) = Fin a \<and> 0 \<le> a \<and> a \<le> 30"
  by (cases y) (auto simp: fmin_def)

lemma amenity_component_range: "\<exists>a. amenity_component h = Fin a \<and> 0 \<le> a \<and> a \<le> 30"
proof -
  define n where "n = length (amenities h)"
  have "of_int 0 \<le> (of_nat n :: rat)" by simp
  then have x: "fle (Fin (of_int 0)) (float_of_nat n)"
    unfolding float_of_nat_def by (rule fl_ge_int) simp
  have "fle (Fin 0) (fmul (float_of_nat n) (Fin 6))"
  proof (cases "float_of_nat n")
    case (Fin a)
    with x have "of_int 0 \<le> a * 6" by simp
    then have "fle (Fin (of_int 0)) (fl (a * 6))" by (rule fl_ge_int) simp
    with Fin show ?thesis by simp
  qed (use x in simp_all)
  then show ?thesis
    unfolding amenity_component_def n_def by (rule fmin_30_range)
qed

lemma fadd_range:
  assumes "0 \<le> x" "x \<le> of_int a" "0 \<le> y" "y \<le> of_int b" "\<bar>a + b\<bar> < 2 ^ 53"
  shows "\<exists>r. fadd (Fin x) (Fin y) = Fin r \<and> 0 \<le> r \<and> r \<le> of_int (a + b)"
proof -
  have "of_int 0 \<le> x + y" "x + y \<le> of_int (a + b)" using assms by simp_all
  then obtain r where "fl (x + y) = Fin r" "of_int 0 \<le> r" "r \<le> of_int (a + b)"
    by (rule fl_bounds) (use assms(5) in simp_all)
  then show ?thesis by simp
qed

lemma py_round1_range:
  assumes "0 \<le> v" "v \<le> 100"
  shows "\<exists>w. py_round1 (Fin v) = Fin w \<and> 0 \<le> w \<and> w \<le> 100"
proof -
  have "of_int 0 \<le> v * 10" "v * 10 \<le> of_int 1000" using assms by simp_all
  then have "0 \<le> rne (v * 10)" "rne (v * 10) \<le> 1000"
    by (simp_all add: rne_ge_int rne_le_int)
  then have "(of_int 0 :: rat) \<le> of_int (rne (v * 10))"
    "(of_int (rne (v * 10)) :: rat) \<le> of_int 1000"
    by (simp_all only: of_int_le_iff)
  then have "of_int 0 \<le> (of_int (rne (v * 10)) :: rat) / 10"
    "(of_int (rne (v * 10)) :: rat) / 10 \<le> of_int 100"
    by simp_all
  then obtain w where "fl (of_int (rne (v * 10)) / 10) = Fin w" "of_int 0 \<le> w" "w \<le> of_int 100"
    by (rule fl_bounds) simp_all
  then show ?thesis by simp
qed

lemma score_hotel_f: "calculate_recommendation_score hotel_f pref_500 = Some (Fin 100)"
proof -
  have step: "price_step hotel_f pref_500 (Fin 0) = Some (Fin 40)"
    using fl_int [of 1] fl_int [of 40]
    by (simp add: price_step_def hotel_f_def pref_500_def fgt_def)
  have r: "rating_component hotel_f = Fin 30"
    using fl_int [of 1] fl_int [of 30] by (simp add: rating_component_def hotel_f_def)
  have a: "amenity_component hotel_f = Fin 30"
    using fl_int [of 5] fl_int [of 30]
    by (simp add: amenity_component_def hotel_f_def float_of_nat_def fmin_def)
  show ?thesis
    using fl_int [of 70] fl_int [of 100] fl_int [of 1000]
    by (simp add: score_unfold [OF step] r a)
qed

text \<open>
  Claim C3, as stated, fails: the three components add up to 100, not 70. A hotel rated 5
  with five amenities and a price within the budget scores 100.
\<close>

theorem score_range_counterexample:
  "fle (Fin 0) (rating hotel_f) \<and> fle (rating hotel_f) (Fin 5)
   \<and> calculate_recommendation_score hotel_f pref_500 = Some (Fin 100)
   \<and> \<not> fle (Fin 100) (Fin 70)"
  by (simp add: score_hotel_f) (simp add: hotel_f_def)

text \<open>
  Claim C3, amended. For every hotel whose rating lies in [0, 5] and every preference,
  the score is a finite number in the interval [0, 100].
\<close>

theorem score_range:
  "fle (Fin 0) (rating h) \<Longrightarrow> fle (rating h) (Fin 5) \<Longrightarrow>
   \<exists>s. calculate_recommendation_score h p = Some (Fin s) \<and> 0 \<le> s \<and> s \<le> 100"
proof -
  assume rating: "fle (Fin 0) (rating h)" "fle (rating h) (Fin 5)"
  obtain c where c: "price_step h p (Fin 0) = Some (Fin c)" "c = 0 \<or> c = 40"
    using price_step_cases by blast
  obtain t where t: "rating_component h = Fin t" "0 \<le> t" "t \<le> 30"
    using rating_component_range [OF rating] by blast
  obtain a where a: "amenity_component h = Fin a" "0 \<le> a" "a \<le> 30"
    using amenity_component_range by blast
  have "0 \<le> c" "c \<le> of_int 40" "0 \<le> t" "t \<le> of_int 30"
    using c(2) t by auto
  then have "\<exists>u. fadd (Fin c) (Fin t) = Fin u \<and> 0 \<le> u \<and> u \<le> of_int (40 + 30)"
    by (rule fadd_range) simp
  then obtain u where u: "fadd (Fin c) (Fin t) = Fin u" "0 \<le> u" "u \<le> of_int 70"
    by auto
  have "0 \<le> a" "a \<le> of_int 30" using a by simp_all
  with u(2,3) have "\<exists>v. fadd (Fin u) (Fin a) = Fin v \<and> 0 \<le> v \<and> v \<le> of_int (70 + 30)"
    by (rule fadd_range) simp
  then obtain v where v: "fadd (Fin u) (Fin a) = Fin v" "0 \<le> v" "v \<le> 100"
    by auto
  obtain w where w: "py_round1 (Fin v) = Fin w" "0 \<le> w" "w \<le> 100"
    using py_round1_range [OF v(2,3)] by blast
  have "calculate_recommendation_score h p
      = Some (py_round1 (fadd (fadd (Fin c) (rating_component h)) (amenity_component h)))"
    by (rule score_unfold [OF c(1)])
  then have "calculate_recommendation_score h p = Some (Fin w)"
    unfolding t(1) a(1) u(1) v(1) w(1) .
  with w show ?thesis by blast
qed

theorem score_range_witness:
  "fle (Fin 0) (rating hotel_f) \<and> fle (rating hotel_f) (Fin 5)
   \<and> calculate_recommendation_score hotel_f pref_500 = Some (Fin 100)
   \<and> (0::rat) \<le> 100 \<and> (100::rat) \<le> 100"
proof -
  have r: "fle (Fin 0) (rating hotel_f)" "fle (rating hotel_f) (Fin 5)"
    by (simp_all add: hotel_f_def)
  from score_range [OF r, of pref_500] obtain s
    where s: "calculate_recommendation_score hotel_f pref_500 = Some (Fin s)"
      "0 \<le> s" "s \<le> 100"
    by blast
  have e: "calculate_recommendation_score hotel_f pref_500 = Some (Fin 100)"
    by (rule score_hotel_f)
  from s(1) e have "s = 100" by simp
  with s r e show ?thesis by simp
qed

lemma fdiv_5_mono:
  "fle a b \<Longrightarrow>
   fle (case fdiv a (Fin 5) of Some q \<Rightarrow> q | None \<Rightarrow> NaN)
       (case fdiv b (Fin 5) of Some q \<Rightarrow> q | None \<Rightarrow> NaN)"
  by (cases a; cases b) (auto intro!: fl_mono simp: divide_right_mono)

lemma fmul_30_mono: "fle a b \<Longrightarrow> fle (fmul a (Fin 30)) (fmul b (Fin 30))"
  by (cases a; cases b) (auto intro!: fl_mono)

lemma fadd_left_mono: "fle a b \<Longrightarrow> fle (fadd (Fin c) a) (fadd (Fin c) b)"
  by (cases a; cases b) (auto intro!: fl_mono)

lemma fadd_right_mono: "fle a b \<Longrightarrow> fle (fadd a (Fin c)) (fadd b (Fin c))"
  by (cases a; cases b) (auto intro!: fl_mono)

lemma py_round1_mono: "fle a b \<Longrightarrow> fle (py_round1 a) (py_round1 b)"
proof (cases a; cases b)
  fix x y
  assume "fle a b" "a = Fin x" "b = Fin y"
  then have "x * 10 \<le> y * 10" by simp
  then have "rne (x * 10) \<le> rne (y * 10)" by (rule rne_mono)
  then have "(of_int (rne (x * 10)) :: rat) \<le> of_int (rne (y * 10))"
    by (simp only: of_int_le_iff)
  then have "(of_int (rne (x * 10)) :: rat) / 10 \<le> of_int (rne (y * 10)) / 10"
    by simp
  then have "fle (fl (of_int (rne (x * 10)) / 10)) (fl (of_int (rne (y * 10)) / 10))"
    by (rule fl_mono)
  then show "fle (py_round1 a) (py_round1 b)"
    by (simp add: \<open>a = Fin x\<close> \<open>b = Fin y\<close>)
qed auto

lemma rating_component_mono:
  "fle (rating h1) (rating h2) \<Longrightarrow> fle (rating_component h1) (rating_component h2)"
  unfolding rating_component_def by (intro fmul_30_mono fdiv_5_mono)

text \<open>
  Claim C10. The score is monotonically non-decreasing in the rating: for two hotels that
  differ in their rating only, a rating that is at most the other gives a score that is
  at most the other's; both scores exist.
\<close>

theorem score_monotone_in_rating:
  "fle (rating h1) (rating h2) \<Longrightarrow> h2 = h1\<lparr>rating := rating h2\<rparr> \<Longrightarrow>
   \<exists>s1 s2. calculate_recommendation_score h1 p = Some s1
     \<and> calculate_recommendation_score h2 p = Some s2 \<and> fle s1 s2"
proof -
  assume le: "fle (rating h1) (rating h2)" and h2: "h2 = h1\<lparr>rating := rating h2\<rparr>"
  obtain c where c: "price_step h1 p (Fin 0) = Some (Fin c)"
    using price_step_cases by blast
  have "price_step h2 p (Fin 0) = price_step h1 p (Fin 0)"
    by (subst h2) (simp add: price_step_def)
  with c have c2: "price_step h2 p (Fin 0) = Some (Fin c)" by simp
  obtain a where a: "amenity_component h1 = Fin a"
    using amenity_component_range by blast
  have "amenity_component h2 = amenity_component h1"
    by (subst h2) (simp add: amenity_component_def)
  with a have a2: "amenity_component h2 = Fin a" by simp
  have "fle (rating_component h1) (rating_component h2)"
    using le by (rule rating_component_mono)
  then have "fle (fadd (Fin c) (rating_component h1)) (fadd (Fin c) (rating_component h2))"
    by (rule fadd_left_mono)
  then have "fle (fadd (fadd (Fin c) (rating_component h1)) (Fin a))
      (fadd (fadd (Fin c) (rating_component h2)) (Fin a))"
    by (rule fadd_right_mono)
  then have "fle (py_round1 (fadd (fadd (Fin c) (rating_component h1)) (Fin a)))
      (py_round1 (fadd (fadd (Fin c) (rating_component h2)) (Fin a)))"
    by (rule py_round1_mono)
  moreover have "calculate_recommendation_score h1 p
      = Some (py_round1 (fadd (fadd (Fin c) (rating_component h1)) (Fin a)))"
    using score_unfold [OF c] unfolding a .
  moreover have "calculate_recommendation_score h2 p
      = Some (py_round1 (fadd (fadd (Fin c) (rating_component h2)) (Fin a)))"
    using score_unfold [OF c2] unfolding a2 .
  ultimately show ?thesis by blast
qed

lemma score_hotel_f_unrated:
  "calculate_recommendation_score (hotel_f\<lparr>rating := Fin 0\<rparr>) pref_500 = Some (Fin 70)"
proof -
  have step: "price_step (hotel_f\<lparr>rating := Fin 0\<rparr>) pref_500 (Fin 0) = Some (Fin 40)"
    using fl_int [of 1] fl_int [of 40]
    by (simp add: price_step_def hotel_f_def pref_500_def fgt_def)
  have r: "rating_component (hotel_f\<lparr>rating := Fin 0\<rparr>) = Fin 0"
    using fl_int [of 0] by (simp add: rating_component_def)
  have a: "amenity_component (hotel_f\<lparr>rating := Fin 0\<rparr>) = Fin 30"
    using fl_int [of 5] fl_int [of 30]
    by (simp add: amenity_component_def hotel_f_def float_of_nat_def fmin_def)
  show ?thesis
    using fl_int [of 40] fl_int [of 70] fl_int [of 700]
    by (simp add: score_unfold [OF step] r a)
qed

theorem score_monotone_in_rating_witness:
  "fle (rating (hotel_f\<lparr>rating := Fin 0\<rparr>)) (rating hotel_f)
   \<and> hotel_f = hotel_f\<lparr>rating := Fin 0, rating := rating hotel_f\<rparr>
   \<and> calculate_recommendation_score (hotel_f\<lparr>rating := Fin 0\<rparr>) pref_500 = Some (Fin 70)
   \<and> calculate_recommendation_score hotel_f pref_500 = Some (Fin 100)
   \<and> fle (Fin 70) (Fin 100)"
proof -
  have le: "fle (rating (hotel_f\<lparr>rating := Fin 0\<rparr>)) (rating hotel_f)"
    by (simp add: hotel_f_def)
  have eq: "hotel_f = hotel_f\<lparr>rating := Fin 0\<rparr>\<lparr>rating := rating hotel_f\<rparr>"
    by simp
  from score_monotone_in_rating [OF le eq, of pref_500] obtain s1 s2
    where s: "calculate_recommendation_score (hotel_f\<lparr>rating := Fin 0\<rparr>) pref_500 = Some s1"
      "calculate_recommendation_score hotel_f pref_500 = Some s2" "fle s1 s2"
    by blast
  have s1: "s1 = Fin 70" using s(1) score_hotel_f_unrated by simp
  have s2: "s2 = Fin 100" using s(2) score_hotel_f by simp
  from s(3) have m: "fle (Fin 70) (Fin 100)" unfolding s1 s2 .
  from le eq score_hotel_f_unrated score_hotel_f m show ?thesis
    by simp
qed

section \<open>Properties of the recommendations endpoint\<close>




























end
